theory Spec2Isabelle
  imports Main "HOL-Library.Multiset"
begin

section \<open>JavaScript values\<close>

text \<open>
  The portal is JavaScript. A string is modelled as a \<^typ>\<open>string\<close>, one \<^typ>\<open>char\<close> per
  code unit (code units above 255 are outside the model); \<open>null\<close> and \<open>undefined\<close> are
  \<^term>\<open>None\<close>. A string is falsy exactly when it is empty, \<open>null\<close> is falsy, and every
  array, the empty one included, is truthy.
\<close>

definition truthy :: "string option \<Rightarrow> bool" where
  "truthy v = (case v of None \<Rightarrow> False | Some s \<Rightarrow> s \<noteq> [])"

text \<open>
  \<open>String.prototype.trim\<close> strips white space and line terminators from both ends:
  TAB, LF, VT, FF, CR, SP and NBSP are the ones a \<^typ>\<open>char\<close> can hold.
\<close>

definition is_space :: "char \<Rightarrow> bool" where
  "is_space c = (c \<in> set [CHR 0x09, CHR 0x0A, CHR 0x0B, CHR 0x0C, CHR 0x0D, CHR 0x20, CHR 0xA0])"

definition trim :: "string \<Rightarrow> string" where
  "trim s = rev (dropWhile is_space (rev (dropWhile is_space s)))"

text \<open>
  A value read from a document field or passed where an array is expected. Only what
  the code inspects is kept: whether it is an array, and the array's elements.
\<close>

datatype js_value = JUndefined | JNull | JString string | JArray "string list"


section \<open>main.js: route dispatch\<close>

text \<open>
  What \<open>renderRoute\<close> leaves in the content root: a call of one of the page renderers
  with its arguments, or markup assigned to \<open>innerHTML\<close> in place.
  \<open>SettingsPage\<close> stands for a call of \<open>renderSettingsPage\<close> of pages/Settings.js.
\<close>

datatype view =
    PartnerDetailPage string string
  | PartnersPage string "string option"
  | DocumentsPage string "string option"
  | TemplatesPage string "string option"
  | SettingsPage string
  | Html string

definition normalizePath :: "string \<Rightarrow> string" where
  "normalizePath pathname =
     (if pathname = [] \<or> pathname = ''/'' \<or> pathname = ''/home'' then ''/partners''
      else pathname)"

text \<open>
  \<open>path.match(/^\/partners\/([^/]+)$/)\<close>: the whole path is \<open>/partners/\<close> followed by
  one or more characters other than \<open>/\<close>; the match's group 1 is that rest.
\<close>

definition partnerDetailMatch :: "string \<Rightarrow> string option" where
  "partnerDetailMatch path =
     (let lead = ''/partners/''; rest = drop (length lead) path
      in if take (length lead) path = lead \<and> rest \<noteq> [] \<and> CHR ''/'' \<notin> set rest
         then Some rest else None)"

definition renderRoute :: "string \<Rightarrow> string \<Rightarrow> string option \<Rightarrow> view" where
  "renderRoute path userRole partnerId =
     (let normalizedPath = normalizePath path in
      case partnerDetailMatch path of
        Some partnerDocId \<Rightarrow> PartnerDetailPage partnerDocId userRole
      | None \<Rightarrow>
          if normalizedPath = ''/partners'' then PartnersPage userRole partnerId
          else if normalizedPath = ''/documents'' then DocumentsPage userRole partnerId
          else if normalizedPath = ''/templates'' then TemplatesPage userRole partnerId
          else if normalizedPath = ''/settings'' then
            Html (''<h1>Account Settings</h1><p>Settings page for role: '' @ userRole @ ''</p>'')
          else Html ''<h1>404 | Not Found</h1>'')"


section \<open>Page renderers: the queries they build\<close>

text \<open>
  A Firestore query: the collection and the constraints given to \<open>query(...)\<close>, in order.
  A collection reference handed to \<open>getDocs\<close> as it is has no constraint.
\<close>

datatype constraint = Where string string string | OrderBy string string

record query =
  col :: string
  constraints :: "constraint list"

type_synonym row = "(string \<times> string) list"

text \<open>\<open>getDocs\<close>: the rows of the snapshot, or the error the promise rejects with.\<close>

type_synonym backend = "query \<Rightarrow> string + row list"

text \<open>
  What a renderer leaves behind: the content root, the reads it sent to the backend in
  order, the lines it wrote with \<open>console.error\<close>, and the error its own promise
  rejects with when a read fails outside any handler. Of the content only the kind is
  kept: the loading card, the access-denied message, the page drawn from the rows
  fetched (its markup is not modelled), or the error message.
\<close>

datatype page =
    Loading string
  | Denied string
  | Listing "row list"
  | Library "row list" "row list"
  | LoadFailed string

record rendering =
  content :: page
  reads :: "query list"
  logged :: "(string \<times> string) list"
  rejected :: "string option"

subsection \<open>pages/Partners.js\<close>

definition partnersQuery :: "string \<Rightarrow> string option \<Rightarrow> query option" where
  "partnersQuery userRole partnerId =
     (if userRole = ''admin'' \<or> userRole = ''transferz'' then
        Some \<lparr>col = ''partners'', constraints = []\<rparr>
      else if userRole = ''partner'' \<and> truthy partnerId then
        Some \<lparr>col = ''partners'',
              constraints = [Where ''partnerId'' ''=='' (case partnerId of Some p \<Rightarrow> p | None \<Rightarrow> [])]\<rparr>
      else None)"

definition renderPartnersPage :: "backend \<Rightarrow> string \<Rightarrow> string option \<Rightarrow> rendering" where
  "renderPartnersPage getDocs userRole partnerId =
     (case partnersQuery userRole partnerId of
        None \<Rightarrow>
          \<lparr>content = Denied ''Access Denied or Missing Partner ID.'', reads = [], logged = [], rejected = None\<rparr>
      | Some q \<Rightarrow>
          (case getDocs q of
             Inr partners \<Rightarrow> \<lparr>content = Listing partners, reads = [q], logged = [], rejected = None\<rparr>
           | Inl error \<Rightarrow>
               \<lparr>content = LoadFailed ''Error loading data. Check console and Firebase Security Rules.'',
                reads = [q],
                logged = [(''Error fetching partners:'', error)], rejected = None\<rparr>))"

subsection \<open>pages/Templates.js\<close>

definition templatesQuery :: "string \<Rightarrow> string option \<Rightarrow> query option" where
  "templatesQuery userRole partnerId =
     (if userRole = ''admin'' \<or> userRole = ''transferz'' then
        Some \<lparr>col = ''templates'', constraints = [OrderBy ''updatedAt'' ''desc'']\<rparr>
      else if userRole = ''partner'' \<and> truthy partnerId then
        Some \<lparr>col = ''templates'',
              constraints = [Where ''partnerId'' ''=='' (case partnerId of Some p \<Rightarrow> p | None \<Rightarrow> []),
                             OrderBy ''updatedAt'' ''desc'']\<rparr>
      else None)"

definition renderTemplatesPage :: "backend \<Rightarrow> string \<Rightarrow> string option \<Rightarrow> rendering" where
  "renderTemplatesPage getDocs userRole partnerId =
     (case templatesQuery userRole partnerId of
        None \<Rightarrow>
          \<lparr>content = Denied ''Access denied or missing partner assignment.'', reads = [], logged = [], rejected = None\<rparr>
      | Some q \<Rightarrow>
          (case getDocs q of
             Inr templates \<Rightarrow> \<lparr>content = Listing templates, reads = [q], logged = [], rejected = None\<rparr>
           | Inl error \<Rightarrow>
               \<lparr>content = LoadFailed ''Unable to load templates. Please check console and Firestore rules.'',
                reads = [q],
                logged = [(''Error loading templates:'', error)], rejected = None\<rparr>))"

subsection \<open>pages/Documents.js, the plain listing\<close>

definition documentsQuery :: "string \<Rightarrow> string option \<Rightarrow> query option" where
  "documentsQuery userRole partnerId =
     (if userRole = ''admin'' \<or> userRole = ''transferz'' then
        Some \<lparr>col = ''documents'', constraints = [OrderBy ''updatedAt'' ''desc'']\<rparr>
      else if userRole = ''partner'' \<and> truthy partnerId then
        Some \<lparr>col = ''documents'',
              constraints = [Where ''partnerId'' ''=='' (case partnerId of Some p \<Rightarrow> p | None \<Rightarrow> []),
                             OrderBy ''updatedAt'' ''desc'']\<rparr>
      else None)"

definition renderDocumentsPage :: "backend \<Rightarrow> string \<Rightarrow> string option \<Rightarrow> rendering" where
  "renderDocumentsPage getDocs userRole partnerId =
     (case documentsQuery userRole partnerId of
        None \<Rightarrow>
          \<lparr>content = Denied ''Access denied or missing partner assignment.'', reads = [], logged = [], rejected = None\<rparr>
      | Some q \<Rightarrow>
          (case getDocs q of
             Inr documents \<Rightarrow> \<lparr>content = Listing documents, reads = [q], logged = [], rejected = None\<rparr>
           | Inl error \<Rightarrow>
               \<lparr>content = LoadFailed ''Unable to load documents. Please check console and Firestore rules.'',
                reads = [q],
                logged = [(''Error loading documents:'', error)], rejected = None\<rparr>))"

subsection \<open>pages/Documents.js, the library with folders\<close>

text \<open>
  The second \<open>renderDocumentsPage\<close> (folders, upload, favorites). \<open>loadDocuments\<close> builds
  the documents query, or returns the empty list without a read; \<open>loadFolders\<close> reads the
  folders collection as it is. \<open>renderPage\<close> awaits the one, then the other, with no
  handler around them: a rejected read ends \<open>renderPage\<close> there, leaves the content root
  as it was (the loading card on the first call, the page on screen on a later one) and
  rejects the promise of \<open>renderPage\<close>.
\<close>

definition loadDocuments :: "string \<Rightarrow> string option \<Rightarrow> string option \<Rightarrow> query option" where
  "loadDocuments userRole partnerId folderName =
     (if userRole = ''admin'' \<or> userRole = ''transferz'' then
        (if truthy folderName then
           Some \<lparr>col = ''documents'',
                 constraints = [Where ''folder'' ''=='' (case folderName of Some f \<Rightarrow> f | None \<Rightarrow> []),
                                OrderBy ''createdAt'' ''desc'']\<rparr>
         else Some \<lparr>col = ''documents'', constraints = [OrderBy ''createdAt'' ''desc'']\<rparr>)
      else if userRole = ''partner'' \<and> truthy partnerId then
        (if truthy folderName then
           Some \<lparr>col = ''documents'',
                 constraints = [Where ''partnerId'' ''=='' (case partnerId of Some p \<Rightarrow> p | None \<Rightarrow> []),
                                Where ''folder'' ''=='' (case folderName of Some f \<Rightarrow> f | None \<Rightarrow> []),
                                OrderBy ''createdAt'' ''desc'']\<rparr>
         else Some \<lparr>col = ''documents'',
                    constraints = [Where ''partnerId'' ''=='' (case partnerId of Some p \<Rightarrow> p | None \<Rightarrow> []),
                                   OrderBy ''createdAt'' ''desc'']\<rparr>)
      else None)"

definition loadFolders :: query where
  "loadFolders = \<lparr>col = ''folders'', constraints = []\<rparr>"

definition renderPage ::
    "backend \<Rightarrow> string \<Rightarrow> string option \<Rightarrow> string option \<Rightarrow> page \<Rightarrow> rendering" where
  "renderPage getDocs userRole partnerId folderName onScreen =
     (case loadDocuments userRole partnerId folderName of
        None \<Rightarrow>
          (case getDocs loadFolders of
             Inr folders \<Rightarrow>
               \<lparr>content = Library [] folders, reads = [loadFolders], logged = [], rejected = None\<rparr>
           | Inl error \<Rightarrow>
               \<lparr>content = onScreen, reads = [loadFolders], logged = [], rejected = Some error\<rparr>)
      | Some q \<Rightarrow>
          (case getDocs q of
             Inl error \<Rightarrow> \<lparr>content = onScreen, reads = [q], logged = [], rejected = Some error\<rparr>
           | Inr documents \<Rightarrow>
               (case getDocs loadFolders of
                  Inr folders \<Rightarrow>
                    \<lparr>content = Library documents folders,
                     reads = [q, loadFolders], logged = [], rejected = None\<rparr>
                | Inl error \<Rightarrow>
                    \<lparr>content = onScreen, reads = [q, loadFolders], logged = [],
                     rejected = Some error\<rparr>)))"

text \<open>
  \<open>renderDocumentsPage\<close> itself: it puts the loading card in the content root and awaits
  \<open>renderPage(null)\<close>, again with no handler.
\<close>

definition renderDocumentsLibrary :: "backend \<Rightarrow> string \<Rightarrow> string option \<Rightarrow> rendering" where
  "renderDocumentsLibrary getDocs userRole partnerId =
     renderPage getDocs userRole partnerId None (Loading ''Loading documents...'')"

text \<open>A query scoped to a partner: \<open>where("partnerId", "==", partnerId)\<close> is among its constraints.\<close>

definition partner_filter :: "string \<Rightarrow> query \<Rightarrow> bool" where
  "partner_filter partnerId q = (Where ''partnerId'' ''=='' partnerId \<in> set (constraints q))"

definition filters_partnerId :: "query \<Rightarrow> bool" where
  "filters_partnerId q = list_ex (\<lambda>c. case c of Where f _ _ \<Rightarrow> f = ''partnerId'' | OrderBy _ _ \<Rightarrow> False) (constraints q)"


section \<open>constants/onboardingStages.js: the cached stage list\<close>

definition DEFAULT_STAGES :: "string list" where
  "DEFAULT_STAGES = [''Intake'', ''Testing'', ''Integration'', ''Go Live'', ''Complete'']"

text \<open>
  The module's two variables, the \<open>settings/onboardingStages\<close> document at the backend
  (\<^term>\<open>None\<close> when it does not exist, else its \<open>stages\<close> field), and what the event loop
  holds: the loads that are waiting for the backend, each under the number of its
  promise; the promises that have resolved, with their values; the calls sent to the
  backend, in order (a \<open>setDoc\<close> with the list written and its \<open>merge\<close> flag); the
  console; the number of the next promise. A stage list is an array of strings.
\<close>

datatype load_phase = AwaitGetDoc | AwaitSetDoc

datatype backend_call = GetDoc | SetDoc "string list" bool

record world =
  cachedStages :: "string list option"
  stagesPromise :: "nat option"
  settingsDoc :: "js_value option"
  in_flight :: "(nat \<times> load_phase) list"
  resolved :: "(nat \<times> string list) list"
  issued :: "backend_call list"
  console :: "(string \<times> string) list"
  fresh :: nat

definition initial :: "js_value option \<Rightarrow> world" where
  "initial doc =
     \<lparr>cachedStages = None, stagesPromise = None, settingsDoc = doc, in_flight = [],
      resolved = [], issued = [], console = [], fresh = 0\<rparr>"

text \<open>
  A call of \<open>loadOnboardingStages\<close>, up to its first \<open>await\<close>: the cached list, or the
  promise of the load in progress, or a new load, whose \<open>getDoc\<close> is sent at once and
  whose promise is stored in \<open>stagesPromise\<close>.
\<close>

datatype load_result = Stages "string list" | InFlight nat

definition loadOnboardingStages :: "world \<Rightarrow> load_result \<times> world" where
  "loadOnboardingStages w =
     (case cachedStages w of
        Some stages \<Rightarrow> (Stages stages, w)
      | None \<Rightarrow>
          (case stagesPromise w of
             Some p \<Rightarrow> (InFlight p, w)
           | None \<Rightarrow>
               (InFlight (fresh w),
                w\<lparr>stagesPromise := Some (fresh w),
                  in_flight := in_flight w @ [(fresh w, AwaitGetDoc)],
                  issued := issued w @ [GetDoc],
                  fresh := Suc (fresh w)\<rparr>)))"

text \<open>
  The end of a load, on each of its paths: the cache is set, the promise resolves with
  the same list, and \<open>finally\<close> clears \<open>stagesPromise\<close>, whichever promise it holds.
\<close>

definition finish :: "nat \<Rightarrow> string list \<Rightarrow> world \<Rightarrow> world" where
  "finish p stages w =
     w\<lparr>cachedStages := Some stages,
       stagesPromise := None,
       in_flight := filter (\<lambda>(q, ph). q \<noteq> p) (in_flight w),
       resolved := resolved w @ [(p, stages)]\<rparr>"

text \<open>
  \<open>getDoc\<close> answers load \<open>p\<close>: a non-empty array in the \<open>stages\<close> field is cached and
  returned; anything else (no document, a falsy field, a field that is no array, the
  empty array) makes the load write the defaults with \<open>setDoc(..., {merge: true})\<close>.
\<close>

definition getDoc_returns :: "nat \<Rightarrow> world \<Rightarrow> world" where
  "getDoc_returns p w =
     (if (p, AwaitGetDoc) \<in> set (in_flight w) then
        (case settingsDoc w of
           Some (JArray stages) \<Rightarrow>
             if length stages > 0 then finish p stages w
             else w\<lparr>in_flight := map (\<lambda>(q, ph). if q = p then (q, AwaitSetDoc) else (q, ph)) (in_flight w),
                    issued := issued w @ [SetDoc DEFAULT_STAGES True]\<rparr>
         | _ \<Rightarrow>
             w\<lparr>in_flight := map (\<lambda>(q, ph). if q = p then (q, AwaitSetDoc) else (q, ph)) (in_flight w),
               issued := issued w @ [SetDoc DEFAULT_STAGES True]\<rparr>)
      else w)"

definition setDoc_returns :: "nat \<Rightarrow> world \<Rightarrow> world" where
  "setDoc_returns p w =
     (if (p, AwaitSetDoc) \<in> set (in_flight w) then
        finish p DEFAULT_STAGES (w\<lparr>settingsDoc := Some (JArray DEFAULT_STAGES)\<rparr>)
      else w)"

text \<open>Either call rejects: the \<open>catch\<close> logs the error and falls back to the defaults.\<close>

definition load_rejected :: "nat \<Rightarrow> string \<Rightarrow> world \<Rightarrow> world" where
  "load_rejected p error w =
     (if p \<in> fst ` set (in_flight w) then
        finish p DEFAULT_STAGES
          (w\<lparr>console := console w @ [(''Error loading onboarding stages:'', error)]\<rparr>)
      else w)"

definition clearStagesCache :: "world \<Rightarrow> world" where
  "clearStagesCache w = w\<lparr>cachedStages := None, stagesPromise := None\<rparr>"

text \<open>
  What can happen next: a caller loads, the backend answers the call a load is waiting
  for (a read is answered with the document as it is then), the backend rejects it, or
  somebody clears the cache. Each is one turn of the event loop.
\<close>

datatype event = Load | Returned nat | Rejected nat string | Clear

fun step :: "world \<Rightarrow> event \<Rightarrow> world" where
  "step w Load = snd (loadOnboardingStages w)"
| "step w (Returned p) =
     (if (p, AwaitGetDoc) \<in> set (in_flight w) then getDoc_returns p w else setDoc_returns p w)"
| "step w (Rejected p error) = load_rejected p error w"
| "step w Clear = clearStagesCache w"

definition run :: "world \<Rightarrow> event list \<Rightarrow> world" where
  "run w evs = foldl step w evs"

text \<open>
  \<open>saveOnboardingStages\<close> takes two turns of the event loop. In the first it checks its
  argument and, if that is a non-empty array, sends \<open>setDoc\<close> (which replaces the
  document) and waits at the \<open>await\<close>; the result says what it is waiting to write. In
  the second, when the write has settled (\<^term>\<open>None\<close>: it went through; \<^term>\<open>Some e\<close>: it
  was rejected with \<open>e\<close>), it assigns the cache, or logs the error and throws it on.
  Anything may run between the two.
\<close>

datatype save_error = NotNonEmptyArray | WriteFailed string

definition save_sends :: "js_value \<Rightarrow> world \<Rightarrow> (save_error + string list) \<times> world" where
  "save_sends stages w =
     (case stages of
        JArray xs \<Rightarrow>
          if length xs = 0 then (Inl NotNonEmptyArray, w)
          else (Inr xs, w\<lparr>issued := issued w @ [SetDoc xs False]\<rparr>)
      | _ \<Rightarrow> (Inl NotNonEmptyArray, w))"

definition save_settles :: "string option \<Rightarrow> string list \<Rightarrow> world \<Rightarrow> (save_error + unit) \<times> world" where
  "save_settles rejection xs w =
     (case rejection of
        None \<Rightarrow> (Inr (), w\<lparr>settingsDoc := Some (JArray xs), cachedStages := Some xs\<rparr>)
      | Some error \<Rightarrow>
          (Inl (WriteFailed error),
           w\<lparr>console := console w @ [(''Error saving onboarding stages:'', error)]\<rparr>))"

text \<open>The whole call, when nothing else runs while the write is pending.\<close>

definition saveOnboardingStages :: "string option \<Rightarrow> js_value \<Rightarrow> world \<Rightarrow> (save_error + unit) \<times> world" where
  "saveOnboardingStages rejection stages w =
     (case save_sends stages w of
        (Inl error, w') \<Rightarrow> (Inl error, w')
      | (Inr xs, w') \<Rightarrow> save_settles rejection xs w')"

text \<open>\<open>stagesToUse[0] || null\<close>: an empty first name is falsy, so it gives \<open>null\<close> too.\<close>

definition first_or_null :: "string list \<Rightarrow> string option" where
  "first_or_null stagesToUse =
     (case stagesToUse of [] \<Rightarrow> None | s # _ \<Rightarrow> if s = [] then None else Some s)"

text \<open>\<open>Array.prototype.indexOf\<close>: the first index holding the value, or \<open>-1\<close>.\<close>

fun indexOf_from :: "nat \<Rightarrow> string list \<Rightarrow> string \<Rightarrow> int" where
  "indexOf_from k [] x = -1"
| "indexOf_from k (y # ys) x = (if y = x then int k else indexOf_from (Suc k) ys x)"

definition indexOf :: "string list \<Rightarrow> string \<Rightarrow> int" where
  "indexOf xs x = indexOf_from 0 xs x"

definition getNextStage :: "world \<Rightarrow> string option \<Rightarrow> string list option \<Rightarrow> string option" where
  "getNextStage w currentStage stages =
     (let stagesToUse =
            (case stages of
               Some s \<Rightarrow> s
             | None \<Rightarrow> (case cachedStages w of Some c \<Rightarrow> c | None \<Rightarrow> DEFAULT_STAGES))
      in case currentStage of
           None \<Rightarrow> first_or_null stagesToUse
         | Some cur \<Rightarrow>
             if cur = [] then first_or_null stagesToUse
             else
               (let currentIndex = indexOf stagesToUse cur in
                if currentIndex = -1 then first_or_null stagesToUse
                else if currentIndex \<ge> int (length stagesToUse) - 1 then None
                else Some (stagesToUse ! nat (currentIndex + 1))))"


section \<open>pages/Settings.js: the stage editor\<close>

text \<open>
  The editor keeps a local array \<open>stages\<close>. Every button and input carries the index of
  its row in \<open>data-index\<close>, and the list is drawn again after each change of length or
  order, so a handler only ever runs with the index of a row that exists: the result is
  \<^term>\<open>None\<close> for an index no row has.
\<close>

definition move_up_click :: "nat \<Rightarrow> string list \<Rightarrow> string list option" where
  "move_up_click index stages =
     (if index < length stages then
        Some (if index > 0
              then stages[index := stages ! (index - 1), index - 1 := stages ! index]
              else stages)
      else None)"

definition move_down_click :: "nat \<Rightarrow> string list \<Rightarrow> string list option" where
  "move_down_click index stages =
     (if index < length stages then
        Some (if int index < int (length stages) - 1
              then stages[index := stages ! (index + 1), index + 1 := stages ! index]
              else stages)
      else None)"

text \<open>\<open>stages.splice(index, 1)\<close>, after the user's answer to \<open>confirm\<close>.\<close>

definition delete_click :: "nat \<Rightarrow> bool \<Rightarrow> string list \<Rightarrow> string list option" where
  "delete_click index confirmed stages =
     (if index < length stages then
        Some (if length stages > 1 \<and> confirmed
              then take index stages @ drop (index + 1) stages
              else stages)
      else None)"

definition input_blur :: "nat \<Rightarrow> string \<Rightarrow> string list \<Rightarrow> string list option" where
  "input_blur index val stages =
     (if index < length stages then
        Some (let newValue = trim val in
              if newValue \<noteq> [] \<and> newValue \<noteq> stages ! index
              then stages[index := newValue]
              else stages)
      else None)"

text \<open>\<open>prompt\<close> gives the text typed, or \<open>null\<close> when the user cancels.\<close>

definition add_stage_click :: "string option \<Rightarrow> string list \<Rightarrow> string list" where
  "add_stage_click newStageName stages =
     (case newStageName of
        None \<Rightarrow> stages
      | Some name \<Rightarrow> if name \<noteq> [] \<and> trim name \<noteq> [] then stages @ [trim name] else stages)"

text \<open>The \<open>disabled\<close> attributes \<open>renderStagesList\<close> writes on the buttons of row \<open>index\<close>.\<close>

definition move_up_disabled :: "nat \<Rightarrow> string list \<Rightarrow> bool" where
  "move_up_disabled index stages = (index = 0)"

definition move_down_disabled :: "nat \<Rightarrow> string list \<Rightarrow> bool" where
  "move_down_disabled index stages = (int index = int (length stages) - 1)"

definition delete_disabled :: "nat \<Rightarrow> string list \<Rightarrow> bool" where
  "delete_disabled index stages = (length stages \<le> 1)"

datatype edit =
    MoveUp nat
  | MoveDown nat
  | Delete nat bool
  | Blur nat string
  | AddStage "string option"

fun apply_edit :: "edit \<Rightarrow> string list \<Rightarrow> string list option" where
  "apply_edit (MoveUp index) stages = move_up_click index stages"
| "apply_edit (MoveDown index) stages = move_down_click index stages"
| "apply_edit (Delete index confirmed) stages = delete_click index confirmed stages"
| "apply_edit (Blur index val) stages = input_blur index val stages"
| "apply_edit (AddStage newStageName) stages = Some (add_stage_click newStageName stages)"

fun apply_edits :: "edit list \<Rightarrow> string list \<Rightarrow> string list option" where
  "apply_edits [] stages = Some stages"
| "apply_edits (e # es) stages =
     (case apply_edit e stages of None \<Rightarrow> None | Some stages' \<Rightarrow> apply_edits es stages')"

text \<open>
  Save Changes. The loop that removes duplicates keeps a \<open>Set\<close> of the trimmed names seen
  and appends each new one to \<open>uniqueStages\<close>.
\<close>

fun unique_loop :: "string list \<Rightarrow> string set \<Rightarrow> string list \<Rightarrow> string list" where
  "unique_loop [] seen uniqueStages = uniqueStages"
| "unique_loop (stage # rest) seen uniqueStages =
     (let trimmed = trim stage in
      if trimmed \<noteq> [] \<and> trimmed \<notin> seen
      then unique_loop rest (insert trimmed seen) (uniqueStages @ [trimmed])
      else unique_loop rest seen uniqueStages)"

datatype notice = ErrorNotice string | SuccessNotice string

text \<open>The text of the error a handler's \<open>catch\<close> writes to the console.\<close>

fun error_text :: "save_error \<Rightarrow> string" where
  "error_text NotNonEmptyArray = ''Stages must be a non-empty array''"
| "error_text (WriteFailed error) = error"

text \<open>
  The handler's result: the message shown (none when the user declines the removal of
  duplicates), the editor's list afterwards, and the world afterwards.
\<close>

definition save_stages_click ::
    "bool \<Rightarrow> string option \<Rightarrow> string list \<Rightarrow> world \<Rightarrow> notice option \<times> string list \<times> world" where
  "save_stages_click confirmed rejection stages w =
     (let emptyStages = filter (\<lambda>s. s = [] \<or> trim s = []) stages in
      if length emptyStages > 0 then
        (Some (ErrorNotice ''Please ensure all stages have names.''), stages, w)
      else
        (let uniqueStages = unique_loop stages {} [] in
         if length uniqueStages \<noteq> length stages \<and> \<not> confirmed then (None, stages, w)
         else
           (let stages' = (if length uniqueStages \<noteq> length stages then uniqueStages else stages) in
            case saveOnboardingStages rejection (JArray stages') w of
              (Inr _, w') \<Rightarrow>
                (Some (SuccessNotice ''Stages saved successfully!''), stages', clearStagesCache w')
            | (Inl error, w') \<Rightarrow>
                (Some (ErrorNotice ''Error saving stages. Please try again.''), stages',
                 w'\<lparr>console := console w' @ [(''Error saving stages:'', error_text error)]\<rparr>))))"

text \<open>Reset to Default, with the user's answer to \<open>confirm\<close>.\<close>

definition defaultStages :: "string list" where
  "defaultStages = [''Intake'', ''Testing'', ''Integration'', ''Go Live'', ''Complete'']"

definition reset_stages_click :: "bool \<Rightarrow> string option \<Rightarrow> world \<Rightarrow> notice option \<times> world" where
  "reset_stages_click confirmed rejection w =
     (if confirmed then
        (case saveOnboardingStages rejection (JArray defaultStages) w of
           (Inr _, w') \<Rightarrow> (Some (SuccessNotice ''Stages reset to default!''), clearStagesCache w')
         | (Inl error, w') \<Rightarrow>
             (Some (ErrorNotice ''Error resetting stages. Please try again.''),
              w'\<lparr>console := console w' @ [(''Error resetting stages:'', error_text error)]\<rparr>))
      else (None, w))"



section \<open>Handlers around the other backend calls\<close>
















text \<open>
  The state the loader keeps while nobody clears the cache: no load is waiting for the
  backend, or exactly one is and \<open>stagesPromise\<close> holds its promise.
\<close>

definition coalesced :: "world \<Rightarrow> bool" where
  "coalesced w =
     (case in_flight w of
        [] \<Rightarrow> True
      | [(p, ph)] \<Rightarrow> stagesPromise w = Some p
      | _ \<Rightarrow> False)"


section \<open>Route dispatch\<close>

lemma lead_split: "(take (length l) p = l \<and> drop (length l) p = r) = (p = l @ r)"
  by (metis append_eq_conv_conj)

lemma partnerDetailMatch_iff:
  "(partnerDetailMatch path = Some i) = (path = ''/partners/'' @ i \<and> i \<noteq> [] \<and> CHR ''/'' \<notin> set i)"
proof -
  define l where "l = ''/partners/''"
  have m: "partnerDetailMatch path =
      (if take (length l) path = l \<and> drop (length l) path \<noteq> [] \<and> CHR ''/'' \<notin> set (drop (length l) path)
       then Some (drop (length l) path) else None)"
    unfolding partnerDetailMatch_def Let_def l_def by (rule refl)
  have "(partnerDetailMatch path = Some i) =
        ((take (length l) path = l \<and> drop (length l) path = i) \<and> i \<noteq> [] \<and> CHR ''/'' \<notin> set i)"
    unfolding m by auto
  then show ?thesis unfolding lead_split l_def .
qed

lemma partnerDetailMatch_None:
  "(partnerDetailMatch path = None) = (\<not> (\<exists>i. path = ''/partners/'' @ i \<and> i \<noteq> [] \<and> CHR ''/'' \<notin> set i))"
  using partnerDetailMatch_iff [of path] by (cases "partnerDetailMatch path") auto

lemma no_match_plain:
  "partnerDetailMatch [] = None"
  "partnerDetailMatch ''/'' = None"
  "partnerDetailMatch ''/home'' = None"
  "partnerDetailMatch ''/partners'' = None"
  "partnerDetailMatch ''/documents'' = None"
  "partnerDetailMatch ''/templates'' = None"
  "partnerDetailMatch ''/settings'' = None"
  by (simp_all add: partnerDetailMatch_def)

text \<open>
  C4 (as amended). \<open>normalizePath\<close> sends the empty path, \<open>/\<close> and \<open>/home\<close> to
  \<open>/partners\<close>. \<open>renderRoute\<close> sends every path \<open>/partners/<id>\<close>, the id non-empty and
  free of \<open>/\<close>, to the partner-detail renderer; the empty path, \<open>/\<close>, \<open>/home\<close> and
  \<open>/partners\<close> to the Partners renderer; \<open>/documents\<close> to the Documents renderer;
  \<open>/templates\<close> to the Templates renderer; every other path but \<open>/settings\<close> to the 404
  markup. For \<open>/settings\<close> it calls no renderer: it writes a placeholder heading and the
  user's role into the content root.
\<close>

theorem renderRoute_dispatch:
  "normalizePath [] = ''/partners'' \<and> normalizePath ''/'' = ''/partners'' \<and>
   normalizePath ''/home'' = ''/partners'' \<and>
   (i \<noteq> [] \<and> CHR ''/'' \<notin> set i \<longrightarrow>
      renderRoute (''/partners/'' @ i) userRole partnerId = PartnerDetailPage i userRole) \<and>
   renderRoute [] userRole partnerId = PartnersPage userRole partnerId \<and>
   renderRoute ''/'' userRole partnerId = PartnersPage userRole partnerId \<and>
   renderRoute ''/home'' userRole partnerId = PartnersPage userRole partnerId \<and>
   renderRoute ''/partners'' userRole partnerId = PartnersPage userRole partnerId \<and>
   renderRoute ''/documents'' userRole partnerId = DocumentsPage userRole partnerId \<and>
   renderRoute ''/templates'' userRole partnerId = TemplatesPage userRole partnerId \<and>
   renderRoute ''/settings'' userRole partnerId =
     Html (''<h1>Account Settings</h1><p>Settings page for role: '' @ userRole @ ''</p>'') \<and>
   (\<not> (\<exists>i. path = ''/partners/'' @ i \<and> i \<noteq> [] \<and> CHR ''/'' \<notin> set i) \<and>
    path \<notin> {[], ''/'', ''/home'', ''/partners'', ''/documents'', ''/templates'', ''/settings''} \<longrightarrow>
      renderRoute path userRole partnerId = Html ''<h1>404 | Not Found</h1>'')"
proof -
  have d: "i \<noteq> [] \<and> CHR ''/'' \<notin> set i \<longrightarrow>
      renderRoute (''/partners/'' @ i) userRole partnerId = PartnerDetailPage i userRole"
  proof
    assume "i \<noteq> [] \<and> CHR ''/'' \<notin> set i"
    then have "partnerDetailMatch (''/partners/'' @ i) = Some i"
      by (simp add: partnerDetailMatch_iff)
    then show "renderRoute (''/partners/'' @ i) userRole partnerId = PartnerDetailPage i userRole"
      by (simp only: renderRoute_def Let_def option.case)
  qed
  have nf: "\<not> (\<exists>i. path = ''/partners/'' @ i \<and> i \<noteq> [] \<and> CHR ''/'' \<notin> set i) \<and>
      path \<notin> {[], ''/'', ''/home'', ''/partners'', ''/documents'', ''/templates'', ''/settings''} \<longrightarrow>
      renderRoute path userRole partnerId = Html ''<h1>404 | Not Found</h1>''"
  proof
    assume ab: "\<not> (\<exists>i. path = ''/partners/'' @ i \<and> i \<noteq> [] \<and> CHR ''/'' \<notin> set i) \<and>
      path \<notin> {[], ''/'', ''/home'', ''/partners'', ''/documents'', ''/templates'', ''/settings''}"
    then have m: "partnerDetailMatch path = None" by (simp add: partnerDetailMatch_None)
    from ab have b: "path \<noteq> [] \<and> path \<noteq> ''/'' \<and> path \<noteq> ''/home'' \<and> path \<noteq> ''/partners'' \<and>
        path \<noteq> ''/documents'' \<and> path \<noteq> ''/templates'' \<and> path \<noteq> ''/settings''"
      by simp
    then have np: "normalizePath path = path" by (simp add: normalizePath_def)
    show "renderRoute path userRole partnerId = Html ''<h1>404 | Not Found</h1>''"
      unfolding renderRoute_def Let_def m np using b by simp
  qed
  show ?thesis
    apply (intro conjI)
    apply (simp add: normalizePath_def)
    apply (simp add: normalizePath_def)
    apply (simp add: normalizePath_def)
    apply (rule d)
    apply (simp add: renderRoute_def no_match_plain normalizePath_def)
    apply (simp add: renderRoute_def no_match_plain normalizePath_def)
    apply (simp add: renderRoute_def no_match_plain normalizePath_def)
    apply (simp add: renderRoute_def no_match_plain normalizePath_def)
    apply (simp add: renderRoute_def no_match_plain normalizePath_def)
    apply (simp add: renderRoute_def no_match_plain normalizePath_def)
    apply (simp add: renderRoute_def no_match_plain normalizePath_def)
    apply (rule nf)
    done
qed

theorem renderRoute_dispatch_witness:
  "renderRoute ''/partners/acme'' ''admin'' None = PartnerDetailPage ''acme'' ''admin'' \<and>
   renderRoute ''/partners/a/b'' ''admin'' None = Html ''<h1>404 | Not Found</h1>''"
proof -
  have a: "''acme'' \<noteq> [] \<and> CHR ''/'' \<notin> set ''acme''" by simp
  have c: "\<not> (\<exists>i. ''/partners/a/b'' = ''/partners/'' @ i \<and> i \<noteq> [] \<and> CHR ''/'' \<notin> set i)"
    by auto
  have d: "''/partners/a/b'' \<notin> {[], ''/'', ''/home'', ''/partners'', ''/documents'', ''/templates'', ''/settings''}"
    by simp
  note r = renderRoute_dispatch [of "''acme''" "''admin''" None "''/partners/a/b''"]
  note r4 = r [THEN conjunct2, THEN conjunct2, THEN conjunct2, THEN conjunct1]
  note r12 = r [THEN conjunct2, THEN conjunct2, THEN conjunct2, THEN conjunct2, THEN conjunct2,
      THEN conjunct2, THEN conjunct2, THEN conjunct2, THEN conjunct2, THEN conjunct2, THEN conjunct2]
  from r4 a have "renderRoute (''/partners/'' @ ''acme'') ''admin'' None = PartnerDetailPage ''acme'' ''admin''"
    by (rule mp)
  then have 1: "renderRoute ''/partners/acme'' ''admin'' None = PartnerDetailPage ''acme'' ''admin''"
    by simp
  from r12 conjI [OF c d] have 2: "renderRoute ''/partners/a/b'' ''admin'' None = Html ''<h1>404 | Not Found</h1>''"
    by (rule mp)
  from 1 2 show ?thesis by (rule conjI)
qed

text \<open>
  C4 as stated has \<open>/settings\<close> dispatched to the Settings page renderer. The call of
  \<open>renderSettingsPage\<close> is commented out in \<open>renderRoute\<close>; the route yields the placeholder.
\<close>

theorem settings_route_counterexample:
  "renderRoute ''/settings'' ''admin'' None =
     Html ''<h1>Account Settings</h1><p>Settings page for role: admin</p>'' \<and>
   renderRoute ''/settings'' ''admin'' None \<noteq> SettingsPage ''admin''"
  by (simp add: renderRoute_def partnerDetailMatch_def normalizePath_def)

section \<open>Role-scoped queries\<close>

lemma admin_queries:
  assumes "userRole = ''admin'' \<or> userRole = ''transferz''"
  shows "map_option filters_partnerId (partnersQuery userRole partnerId) = Some False"
    and "map_option filters_partnerId (templatesQuery userRole partnerId) = Some False"
    and "map_option filters_partnerId (documentsQuery userRole partnerId) = Some False"
    and "map_option filters_partnerId (loadDocuments userRole partnerId folderName) = Some False"
  using assms
  by (auto simp: partnersQuery_def templatesQuery_def documentsQuery_def loadDocuments_def
      filters_partnerId_def)

lemma partner_queries:
  assumes "p \<noteq> []"
  shows "map_option (partner_filter p) (partnersQuery ''partner'' (Some p)) = Some True"
    and "map_option (partner_filter p) (templatesQuery ''partner'' (Some p)) = Some True"
    and "map_option (partner_filter p) (documentsQuery ''partner'' (Some p)) = Some True"
    and "map_option (partner_filter p) (loadDocuments ''partner'' (Some p) folderName) = Some True"
  using assms
  by (simp_all add: partnersQuery_def templatesQuery_def documentsQuery_def loadDocuments_def
      partner_filter_def truthy_def)

lemma other_queries:
  assumes "userRole \<noteq> ''admin''" "userRole \<noteq> ''transferz''"
    and "\<not> (userRole = ''partner'' \<and> truthy partnerId)"
  shows "partnersQuery userRole partnerId = None"
    and "templatesQuery userRole partnerId = None"
    and "documentsQuery userRole partnerId = None"
    and "loadDocuments userRole partnerId folderName = None"
  using assms
  by (simp_all add: partnersQuery_def templatesQuery_def documentsQuery_def loadDocuments_def)

lemma renderer_reads:
  "reads (renderPartnersPage getDocs userRole partnerId) =
     (case partnersQuery userRole partnerId of None \<Rightarrow> [] | Some q \<Rightarrow> [q])"
  "reads (renderTemplatesPage getDocs userRole partnerId) =
     (case templatesQuery userRole partnerId of None \<Rightarrow> [] | Some q \<Rightarrow> [q])"
  "reads (renderDocumentsPage getDocs userRole partnerId) =
     (case documentsQuery userRole partnerId of None \<Rightarrow> [] | Some q \<Rightarrow> [q])"
  by (simp_all add: renderPartnersPage_def renderTemplatesPage_def renderDocumentsPage_def
      split: option.splits sum.splits)

lemma renderPage_reads:
  "reads (renderPage getDocs userRole partnerId folderName onScreen) =
     (case loadDocuments userRole partnerId folderName of
        None \<Rightarrow> [loadFolders]
      | Some q \<Rightarrow> (case getDocs q of Inl error \<Rightarrow> [q] | Inr documents \<Rightarrow> [q, loadFolders]))"
  by (simp add: renderPage_def split: option.splits sum.splits)

text \<open>
  C1 (as amended). In \<open>renderPartnersPage\<close>, \<open>renderTemplatesPage\<close> and both
  \<open>renderDocumentsPage\<close>s, the query on the page's own collection has no filter on
  \<open>partnerId\<close> when the role is \<open>admin\<close> or \<open>transferz\<close>; it has the filter
  \<open>where("partnerId", "==", partnerId)\<close> when the role is \<open>partner\<close> and the partner id is
  a non-empty string; for any other role, and for a partner whose id is null or empty, no
  such query is built. The three listing pages send exactly that query, if any. The
  library page sends it, if any, and then, unless that read was rejected, reads the whole
  \<open>folders\<close> collection with no constraint, whatever the role: these are all its reads.
\<close>

theorem role_scoped_queries:
  "(userRole = ''admin'' \<or> userRole = ''transferz'' \<longrightarrow>
      map_option filters_partnerId (partnersQuery userRole partnerId) = Some False \<and>
      map_option filters_partnerId (templatesQuery userRole partnerId) = Some False \<and>
      map_option filters_partnerId (documentsQuery userRole partnerId) = Some False \<and>
      map_option filters_partnerId (loadDocuments userRole partnerId folderName) = Some False) \<and>
   (p \<noteq> [] \<longrightarrow>
      map_option (partner_filter p) (partnersQuery ''partner'' (Some p)) = Some True \<and>
      map_option (partner_filter p) (templatesQuery ''partner'' (Some p)) = Some True \<and>
      map_option (partner_filter p) (documentsQuery ''partner'' (Some p)) = Some True \<and>
      map_option (partner_filter p) (loadDocuments ''partner'' (Some p) folderName) = Some True) \<and>
   (userRole \<noteq> ''admin'' \<and> userRole \<noteq> ''transferz'' \<and>
    \<not> (userRole = ''partner'' \<and> truthy partnerId) \<longrightarrow>
      partnersQuery userRole partnerId = None \<and>
      templatesQuery userRole partnerId = None \<and>
      documentsQuery userRole partnerId = None \<and>
      loadDocuments userRole partnerId folderName = None) \<and>
   reads (renderPartnersPage getDocs userRole partnerId) =
     (case partnersQuery userRole partnerId of None \<Rightarrow> [] | Some q \<Rightarrow> [q]) \<and>
   reads (renderTemplatesPage getDocs userRole partnerId) =
     (case templatesQuery userRole partnerId of None \<Rightarrow> [] | Some q \<Rightarrow> [q]) \<and>
   reads (renderDocumentsPage getDocs userRole partnerId) =
     (case documentsQuery userRole partnerId of None \<Rightarrow> [] | Some q \<Rightarrow> [q]) \<and>
   reads (renderPage getDocs userRole partnerId folderName onScreen) =
     (case loadDocuments userRole partnerId folderName of
        None \<Rightarrow> [loadFolders]
      | Some q \<Rightarrow> (case getDocs q of Inl error \<Rightarrow> [q] | Inr documents \<Rightarrow> [q, loadFolders])) \<and>
   loadFolders = \<lparr>col = ''folders'', constraints = []\<rparr>"
proof (intro conjI impI)
  show "loadFolders = \<lparr>col = ''folders'', constraints = []\<rparr>" by (simp add: loadFolders_def)
  show "reads (renderPage getDocs userRole partnerId folderName onScreen) =
     (case loadDocuments userRole partnerId folderName of
        None \<Rightarrow> [loadFolders]
      | Some q \<Rightarrow> (case getDocs q of Inl error \<Rightarrow> [q] | Inr documents \<Rightarrow> [q, loadFolders]))"
    by (rule renderPage_reads)
qed (simp_all add: admin_queries partner_queries other_queries renderer_reads)

theorem role_scoped_queries_witness:
  "(map_option filters_partnerId (partnersQuery ''admin'' (Some ''p1'')) = Some False \<and>
    map_option filters_partnerId (templatesQuery ''admin'' (Some ''p1'')) = Some False \<and>
    map_option filters_partnerId (documentsQuery ''admin'' (Some ''p1'')) = Some False \<and>
    map_option filters_partnerId (loadDocuments ''admin'' (Some ''p1'') None) = Some False) \<and>
   (map_option (partner_filter ''p1'') (partnersQuery ''partner'' (Some ''p1'')) = Some True \<and>
    map_option (partner_filter ''p1'') (templatesQuery ''partner'' (Some ''p1'')) = Some True \<and>
    map_option (partner_filter ''p1'') (documentsQuery ''partner'' (Some ''p1'')) = Some True \<and>
    map_option (partner_filter ''p1'') (loadDocuments ''partner'' (Some ''p1'') None) = Some True) \<and>
   (partnersQuery ''default'' (Some ''p1'') = None \<and>
    templatesQuery ''default'' (Some ''p1'') = None \<and>
    documentsQuery ''default'' (Some ''p1'') = None \<and>
    loadDocuments ''default'' (Some ''p1'') None = None)"
proof -
  note t = role_scoped_queries [where userRole = "''admin''" and partnerId = "Some ''p1''"
      and folderName = None and p = "''p1''" and getDocs = "\<lambda>q. Inr []"]
  note u = role_scoped_queries [where userRole = "''default''" and partnerId = "Some ''p1''"
      and folderName = None and p = "''p1''" and getDocs = "\<lambda>q. Inr []"]
  have a: "''admin'' = ''admin'' \<or> ''admin'' = ''transferz''" by simp
  have b: "''p1'' \<noteq> []" by simp
  have c: "''default'' \<noteq> ''admin'' \<and> ''default'' \<noteq> ''transferz'' \<and>
      \<not> (''default'' = ''partner'' \<and> truthy (Some ''p1''))" by simp
  from t [THEN conjunct1] a have 1:
    "map_option filters_partnerId (partnersQuery ''admin'' (Some ''p1'')) = Some False \<and>
     map_option filters_partnerId (templatesQuery ''admin'' (Some ''p1'')) = Some False \<and>
     map_option filters_partnerId (documentsQuery ''admin'' (Some ''p1'')) = Some False \<and>
     map_option filters_partnerId (loadDocuments ''admin'' (Some ''p1'') None) = Some False"
    by (rule mp)
  from t [THEN conjunct2, THEN conjunct1] b have 2:
    "map_option (partner_filter ''p1'') (partnersQuery ''partner'' (Some ''p1'')) = Some True \<and>
     map_option (partner_filter ''p1'') (templatesQuery ''partner'' (Some ''p1'')) = Some True \<and>
     map_option (partner_filter ''p1'') (documentsQuery ''partner'' (Some ''p1'')) = Some True \<and>
     map_option (partner_filter ''p1'') (loadDocuments ''partner'' (Some ''p1'') None) = Some True"
    by (rule mp)
  from u [THEN conjunct2, THEN conjunct2, THEN conjunct1] c have 3:
    "partnersQuery ''default'' (Some ''p1'') = None \<and>
     templatesQuery ''default'' (Some ''p1'') = None \<and>
     documentsQuery ''default'' (Some ''p1'') = None \<and>
     loadDocuments ''default'' (Some ''p1'') None = None"
    by (rule mp)
  show ?thesis by (rule conjI [OF 1 conjI [OF 2 3]])
qed

text \<open>
  C1 as stated has every query built for a partner carry the partner filter. The library
  page of a partner reads the folders without it.
\<close>

theorem library_reads_counterexample:
  "\<not> list_all (partner_filter ''p1'')
       (reads (renderDocumentsLibrary (\<lambda>q. Inr []) ''partner'' (Some ''p1'')))"
  by (simp add: renderDocumentsLibrary_def renderPage_def loadDocuments_def loadFolders_def
      partner_filter_def truthy_def)


section \<open>Failed reads and writes: the listings, the loader, the save\<close>





lemma save_rejected_effect:
  assumes "xs \<noteq> []"
  shows "saveOnboardingStages (Some e) (JArray xs) w =
     (Inl (WriteFailed e),
      w\<lparr>issued := issued w @ [SetDoc xs False],
        console := console w @ [(''Error saving onboarding stages:'', e)]\<rparr>)"
  using assms by (simp add: saveOnboardingStages_def save_sends_def save_settles_def)

section \<open>The next stage\<close>

lemma indexOf_from_absent: "x \<notin> set ys \<Longrightarrow> indexOf_from k ys x = -1"
  by (induction ys arbitrary: k) auto

lemma indexOf_from_first:
  "i < length ys \<Longrightarrow> ys ! i = x \<Longrightarrow> (\<forall>j<i. ys ! j \<noteq> x) \<Longrightarrow> indexOf_from k ys x = int (k + i)"
proof (induction ys arbitrary: k i)
  case Nil
  then show ?case by simp
next
  case (Cons y ys)
  show ?case
  proof (cases i)
    case 0
    with Cons.prems show ?thesis by simp
  next
    case (Suc n)
    with Cons.prems have "y \<noteq> x" by auto
    moreover have "indexOf_from (Suc k) ys x = int (Suc k + n)"
      using Cons.prems Suc by (intro Cons.IH) auto
    ultimately show ?thesis using Suc by simp
  qed
qed

lemma first_or_null_hd:
  "first_or_null xs = (if xs = [] \<or> hd xs = [] then None else Some (hd xs))"
  by (cases xs) (simp_all add: first_or_null_def)

lemma getNextStage_falsy:
  "\<not> truthy currentStage \<Longrightarrow> getNextStage w currentStage (Some xs) = first_or_null xs"
  by (cases currentStage) (simp_all add: getNextStage_def truthy_def)

lemma getNextStage_absent:
  "c \<noteq> [] \<Longrightarrow> c \<notin> set xs \<Longrightarrow> getNextStage w (Some c) (Some xs) = first_or_null xs"
  by (simp add: getNextStage_def indexOf_def indexOf_from_absent)

lemma getNextStage_present:
  assumes "c \<noteq> []" "i < length xs" "xs ! i = c" "\<forall>j<i. xs ! j \<noteq> c"
  shows "getNextStage w (Some c) (Some xs) =
           (if i + 1 = length xs then None else Some (xs ! (i + 1)))"
proof -
  have "indexOf xs c = int i"
    using indexOf_from_first [OF assms(2,3,4), of 0] by (simp add: indexOf_def)
  then show ?thesis using assms(1,2) by (auto simp: getNextStage_def Let_def nat_add_distrib)
qed

lemma getNextStage_default:
  "getNextStage w currentStage None =
     getNextStage w currentStage (Some (case cachedStages w of Some c \<Rightarrow> c | None \<Rightarrow> DEFAULT_STAGES))"
  by (simp add: getNextStage_def)

text \<open>
  C10 (as amended). The effective list of \<open>getNextStage\<close> is the list given, else the
  cached one, else \<open>DEFAULT_STAGES\<close>. When \<open>currentStage\<close> is falsy or does not occur in
  the list, the result is the first element of the list if that is a non-empty string,
  and \<open>null\<close> if the list is empty or its first element is the empty string. When
  \<open>currentStage\<close> occurs, with its first occurrence at index \<open>i\<close>, the result is \<open>null\<close>
  exactly when \<open>i\<close> is the last index, and the element at \<open>i + 1\<close> otherwise.
\<close>

theorem getNextStage_cases:
  "getNextStage w currentStage None =
     getNextStage w currentStage
       (Some (case cachedStages w of Some cached \<Rightarrow> cached | None \<Rightarrow> DEFAULT_STAGES)) \<and>
   (\<not> truthy currentStage \<longrightarrow>
      getNextStage w currentStage (Some xs) =
        (if xs = [] \<or> hd xs = [] then None else Some (hd xs))) \<and>
   (c \<noteq> [] \<and> c \<notin> set xs \<longrightarrow>
      getNextStage w (Some c) (Some xs) =
        (if xs = [] \<or> hd xs = [] then None else Some (hd xs))) \<and>
   (c \<noteq> [] \<and> i < length xs \<and> xs ! i = c \<and> (\<forall>j<i. xs ! j \<noteq> c) \<longrightarrow>
      getNextStage w (Some c) (Some xs) =
        (if i + 1 = length xs then None else Some (xs ! (i + 1))) \<and>
      (getNextStage w (Some c) (Some xs) = None) = (i + 1 = length xs))"
proof (intro conjI impI)
  show "getNextStage w currentStage None =
     getNextStage w currentStage
       (Some (case cachedStages w of Some cached \<Rightarrow> cached | None \<Rightarrow> DEFAULT_STAGES))"
    by (rule getNextStage_default)
next
  assume "\<not> truthy currentStage"
  then show "getNextStage w currentStage (Some xs) =
        (if xs = [] \<or> hd xs = [] then None else Some (hd xs))"
    by (simp add: getNextStage_falsy first_or_null_hd)
next
  assume "c \<noteq> [] \<and> c \<notin> set xs"
  then show "getNextStage w (Some c) (Some xs) =
        (if xs = [] \<or> hd xs = [] then None else Some (hd xs))"
    by (simp add: getNextStage_absent first_or_null_hd)
next
  assume a: "c \<noteq> [] \<and> i < length xs \<and> xs ! i = c \<and> (\<forall>j<i. xs ! j \<noteq> c)"
  then show p: "getNextStage w (Some c) (Some xs) =
        (if i + 1 = length xs then None else Some (xs ! (i + 1)))"
    using getNextStage_present [of c i xs w] by blast
  show "(getNextStage w (Some c) (Some xs) = None) = (i + 1 = length xs)"
    unfolding p by simp
qed

theorem getNextStage_cases_witness:
  "getNextStage (initial None) (Some ''Testing'') (Some DEFAULT_STAGES) = Some ''Integration'' \<and>
   getNextStage (initial None) (Some ''Complete'') (Some [''Intake'', ''Complete'']) = None \<and>
   getNextStage (initial None) (Some ''Paused'') (Some DEFAULT_STAGES) = Some ''Intake'' \<and>
   getNextStage (initial None) None (Some DEFAULT_STAGES) = Some ''Intake''"
proof -
  note t1 = getNextStage_cases [where w = "initial None" and currentStage = None
      and xs = DEFAULT_STAGES and c = "''Testing''" and i = 1]
  note t2 = getNextStage_cases [where w = "initial None" and currentStage = None
      and xs = "[''Intake'', ''Complete'']" and c = "''Complete''" and i = 1]
  note t3 = getNextStage_cases [where w = "initial None" and currentStage = None
      and xs = DEFAULT_STAGES and c = "''Paused''" and i = 0]
  have h1: "''Testing'' \<noteq> [] \<and> 1 < length DEFAULT_STAGES \<and> DEFAULT_STAGES ! 1 = ''Testing'' \<and>
      (\<forall>j<1. DEFAULT_STAGES ! j \<noteq> ''Testing'')"
    by (simp add: DEFAULT_STAGES_def)
  have h2: "''Complete'' \<noteq> [] \<and> 1 < length [''Intake'', ''Complete''] \<and>
      [''Intake'', ''Complete''] ! 1 = ''Complete'' \<and>
      (\<forall>j<1. [''Intake'', ''Complete''] ! j \<noteq> ''Complete'')"
    by simp
  have h3: "''Paused'' \<noteq> [] \<and> ''Paused'' \<notin> set DEFAULT_STAGES"
    by (simp add: DEFAULT_STAGES_def)
  have h4: "\<not> truthy None" by (simp add: truthy_def)
  from t1 [THEN conjunct2, THEN conjunct2, THEN conjunct2] h1
  have "getNextStage (initial None) (Some ''Testing'') (Some DEFAULT_STAGES) =
        (if 1 + 1 = length DEFAULT_STAGES then None else Some (DEFAULT_STAGES ! (1 + 1))) \<and>
      (getNextStage (initial None) (Some ''Testing'') (Some DEFAULT_STAGES) = None) =
        (1 + 1 = length DEFAULT_STAGES)"
    by (rule mp)
  then have 1: "getNextStage (initial None) (Some ''Testing'') (Some DEFAULT_STAGES) = Some ''Integration''"
    by (simp add: DEFAULT_STAGES_def)
  from t2 [THEN conjunct2, THEN conjunct2, THEN conjunct2] h2
  have "getNextStage (initial None) (Some ''Complete'') (Some [''Intake'', ''Complete'']) =
        (if 1 + 1 = length [''Intake'', ''Complete''] then None
         else Some ([''Intake'', ''Complete''] ! (1 + 1))) \<and>
      (getNextStage (initial None) (Some ''Complete'') (Some [''Intake'', ''Complete'']) = None) =
        (1 + 1 = length [''Intake'', ''Complete''])"
    by (rule mp)
  then have 2: "getNextStage (initial None) (Some ''Complete'') (Some [''Intake'', ''Complete'']) = None"
    by simp
  from t3 [THEN conjunct2, THEN conjunct2, THEN conjunct1] h3
  have "getNextStage (initial None) (Some ''Paused'') (Some DEFAULT_STAGES) =
        (if DEFAULT_STAGES = [] \<or> hd DEFAULT_STAGES = [] then None else Some (hd DEFAULT_STAGES))"
    by (rule mp)
  then have 3: "getNextStage (initial None) (Some ''Paused'') (Some DEFAULT_STAGES) = Some ''Intake''"
    by (simp add: DEFAULT_STAGES_def)
  from t3 [THEN conjunct2, THEN conjunct1] h4
  have "getNextStage (initial None) None (Some DEFAULT_STAGES) =
        (if DEFAULT_STAGES = [] \<or> hd DEFAULT_STAGES = [] then None else Some (hd DEFAULT_STAGES))"
    by (rule mp)
  then have 4: "getNextStage (initial None) None (Some DEFAULT_STAGES) = Some ''Intake''"
    by (simp add: DEFAULT_STAGES_def)
  show ?thesis by (rule conjI [OF 1 conjI [OF 2 conjI [OF 3 4]]])
qed

text \<open>
  C10 as stated returns the first element whenever the list is non-empty and
  \<open>currentStage\<close> is falsy or unknown, and \<open>null\<close> only at the last position. A list whose
  first name is empty gives \<open>null\<close>, through \<open>stagesToUse[0] || null\<close>.
\<close>

theorem empty_first_stage_counterexample:
  "getNextStage (initial None) None (Some ['''', ''Testing'']) = None \<and>
   getNextStage (initial None) (Some ''Paused'') (Some ['''', ''Testing'']) \<noteq> Some (hd ['''', ''Testing'']) \<and>
   getNextStage (initial None) None (Some []) = None"
  by (simp add: getNextStage_def first_or_null_def indexOf_def)


section \<open>Saving the stage list\<close>

lemma save_rejects_non_arrays:
  "(\<forall>xs. stages \<noteq> JArray xs \<or> xs = []) \<Longrightarrow>
     saveOnboardingStages rejection stages w = (Inl NotNonEmptyArray, w)"
  by (cases stages) (auto simp: saveOnboardingStages_def save_sends_def save_settles_def)

lemma save_written:
  "xs \<noteq> [] \<Longrightarrow>
     saveOnboardingStages None (JArray xs) w =
       (Inr (), w\<lparr>issued := issued w @ [SetDoc xs False], settingsDoc := Some (JArray xs),
                  cachedStages := Some xs\<rparr>)"
  by (simp add: saveOnboardingStages_def save_sends_def save_settles_def)

lemma save_cache_unchanged:
  "fst (saveOnboardingStages rejection stages w) \<noteq> Inr () \<Longrightarrow>
     cachedStages (snd (saveOnboardingStages rejection stages w)) = cachedStages w"
  by (cases stages; cases rejection) (auto simp: saveOnboardingStages_def save_sends_def save_settles_def)

text \<open>
  C9. \<open>saveOnboardingStages\<close> assigns \<open>cachedStages\<close> the new list only after the write
  has gone through: while the write is pending, \<open>cachedStages\<close> and the stored document
  are what they were before the call, and the only thing the call has done is to send
  the one \<open>setDoc\<close>; when the write goes through, the call returns normally and
  \<open>cachedStages\<close> is the new list; when the write is rejected, the error is thrown on to
  the caller and \<open>cachedStages\<close> and the stored document are as they were while the write
  was pending. So, for the whole call: a successful write ends with the new list cached
  and stored, a rejected one with the error thrown and both as before, and whenever the
  call does not return normally \<open>cachedStages\<close> is as before.
\<close>

theorem save_updates_cache_after_write:
  "cachedStages (snd (save_sends stages w)) = cachedStages w \<and>
   settingsDoc (snd (save_sends stages w)) = settingsDoc w \<and>
   (xs \<noteq> [] \<longrightarrow>
      save_sends (JArray xs) w = (Inr xs, w\<lparr>issued := issued w @ [SetDoc xs False]\<rparr>)) \<and>
   save_settles None xs pending =
     (Inr (), pending\<lparr>settingsDoc := Some (JArray xs), cachedStages := Some xs\<rparr>) \<and>
   fst (save_settles (Some e) xs pending) = Inl (WriteFailed e) \<and>
   cachedStages (snd (save_settles (Some e) xs pending)) = cachedStages pending \<and>
   settingsDoc (snd (save_settles (Some e) xs pending)) = settingsDoc pending \<and>
   (xs \<noteq> [] \<longrightarrow>
      saveOnboardingStages rejection (JArray xs) w =
        save_settles rejection xs (snd (save_sends (JArray xs) w))) \<and>
   (xs \<noteq> [] \<longrightarrow>
      fst (saveOnboardingStages None (JArray xs) w) = Inr () \<and>
      cachedStages (snd (saveOnboardingStages None (JArray xs) w)) = Some xs \<and>
      settingsDoc (snd (saveOnboardingStages None (JArray xs) w)) = Some (JArray xs)) \<and>
   (xs \<noteq> [] \<longrightarrow>
      fst (saveOnboardingStages (Some e) (JArray xs) w) = Inl (WriteFailed e) \<and>
      cachedStages (snd (saveOnboardingStages (Some e) (JArray xs) w)) = cachedStages w \<and>
      settingsDoc (snd (saveOnboardingStages (Some e) (JArray xs) w)) = settingsDoc w) \<and>
   (fst (saveOnboardingStages rejection stages w) \<noteq> Inr () \<longrightarrow>
      cachedStages (snd (saveOnboardingStages rejection stages w)) = cachedStages w)"
proof -
  have 1: "cachedStages (snd (save_sends stages w)) = cachedStages w"
    by (cases stages) (simp_all add: save_sends_def)
  have 2: "settingsDoc (snd (save_sends stages w)) = settingsDoc w"
    by (cases stages) (simp_all add: save_sends_def)
  have 3: "xs \<noteq> [] \<longrightarrow>
      save_sends (JArray xs) w = (Inr xs, w\<lparr>issued := issued w @ [SetDoc xs False]\<rparr>)"
    by (simp add: save_sends_def)
  have 4: "save_settles None xs pending =
     (Inr (), pending\<lparr>settingsDoc := Some (JArray xs), cachedStages := Some xs\<rparr>)"
    by (simp add: save_settles_def)
  have 5: "fst (save_settles (Some e) xs pending) = Inl (WriteFailed e)"
    by (simp add: save_settles_def)
  have 6: "cachedStages (snd (save_settles (Some e) xs pending)) = cachedStages pending"
    by (simp add: save_settles_def)
  have 7: "settingsDoc (snd (save_settles (Some e) xs pending)) = settingsDoc pending"
    by (simp add: save_settles_def)
  have 8: "xs \<noteq> [] \<longrightarrow>
      saveOnboardingStages rejection (JArray xs) w =
        save_settles rejection xs (snd (save_sends (JArray xs) w))"
    by (simp add: saveOnboardingStages_def save_sends_def)
  have 9: "xs \<noteq> [] \<longrightarrow>
      fst (saveOnboardingStages None (JArray xs) w) = Inr () \<and>
      cachedStages (snd (saveOnboardingStages None (JArray xs) w)) = Some xs \<and>
      settingsDoc (snd (saveOnboardingStages None (JArray xs) w)) = Some (JArray xs)"
    by (simp add: save_written)
  have 10: "xs \<noteq> [] \<longrightarrow>
      fst (saveOnboardingStages (Some e) (JArray xs) w) = Inl (WriteFailed e) \<and>
      cachedStages (snd (saveOnboardingStages (Some e) (JArray xs) w)) = cachedStages w \<and>
      settingsDoc (snd (saveOnboardingStages (Some e) (JArray xs) w)) = settingsDoc w"
    by (simp add: save_rejected_effect)
  have 11: "fst (saveOnboardingStages rejection stages w) \<noteq> Inr () \<longrightarrow>
      cachedStages (snd (saveOnboardingStages rejection stages w)) = cachedStages w"
    by (simp add: save_cache_unchanged)
  show ?thesis
    by (rule conjI [OF 1 conjI [OF 2 conjI [OF 3 conjI [OF 4 conjI [OF 5 conjI [OF 6
          conjI [OF 7 conjI [OF 8 conjI [OF 9 conjI [OF 10 11]]]]]]]]]])
qed

theorem save_updates_cache_after_write_witness:
  "save_sends (JArray [''Intake'', ''Live'']) (initial None) =
     (Inr [''Intake'', ''Live''],
      (initial None)\<lparr>issued := issued (initial None) @ [SetDoc [''Intake'', ''Live''] False]\<rparr>) \<and>
   cachedStages (snd (save_sends (JArray [''Intake'', ''Live'']) (initial None))) = None \<and>
   (fst (saveOnboardingStages None (JArray [''Intake'', ''Live'']) (initial None)) = Inr () \<and>
    cachedStages (snd (saveOnboardingStages None (JArray [''Intake'', ''Live'']) (initial None))) =
      Some [''Intake'', ''Live''] \<and>
    settingsDoc (snd (saveOnboardingStages None (JArray [''Intake'', ''Live'']) (initial None))) =
      Some (JArray [''Intake'', ''Live''])) \<and>
   (fst (saveOnboardingStages (Some ''unavailable'') (JArray [''Intake'', ''Live'']) (initial None)) =
      Inl (WriteFailed ''unavailable'') \<and>
    cachedStages (snd (saveOnboardingStages (Some ''unavailable'') (JArray [''Intake'', ''Live'']) (initial None))) =
      cachedStages (initial None) \<and>
    settingsDoc (snd (saveOnboardingStages (Some ''unavailable'') (JArray [''Intake'', ''Live'']) (initial None))) =
      settingsDoc (initial None))"
proof -
  note t = save_updates_cache_after_write [where xs = "[''Intake'', ''Live'']" and w = "initial None"
      and e = "''unavailable''" and rejection = None and stages = "JArray [''Intake'', ''Live'']"
      and pending = "initial None"]
  have h: "[''Intake'', ''Live''] \<noteq> []" by simp
  have c: "cachedStages (initial None) = None" by (simp add: initial_def)
  note t2 = t [THEN conjunct2, THEN conjunct2]
  note t8 = t2 [THEN conjunct2, THEN conjunct2, THEN conjunct2, THEN conjunct2, THEN conjunct2,
      THEN conjunct2]
  have a: "save_sends (JArray [''Intake'', ''Live'']) (initial None) =
     (Inr [''Intake'', ''Live''],
      (initial None)\<lparr>issued := issued (initial None) @ [SetDoc [''Intake'', ''Live''] False]\<rparr>)"
    by (rule mp [OF t2 [THEN conjunct1] h])
  have b: "cachedStages (snd (save_sends (JArray [''Intake'', ''Live'']) (initial None))) = None"
    using t [THEN conjunct1] c by (rule trans)
  show ?thesis
    by (rule conjI [OF a conjI [OF b conjI [OF mp [OF t8 [THEN conjunct1] h]
          mp [OF t8 [THEN conjunct2, THEN conjunct1] h]]]])
qed


section \<open>Reset to Default\<close>

lemma reset_effect:
  "reset_stages_click True None w =
     (Some (SuccessNotice ''Stages reset to default!''),
      clearStagesCache (w\<lparr>issued := issued w @ [SetDoc defaultStages False],
                          settingsDoc := Some (JArray defaultStages),
                          cachedStages := Some defaultStages\<rparr>))"
  by (simp add: reset_stages_click_def saveOnboardingStages_def save_sends_def save_settles_def defaultStages_def)

text \<open>
  C7. The list that Reset to Default saves is the loader's \<open>DEFAULT_STAGES\<close>. Confirmed
  and written, the reset leaves exactly Intake, Testing, Integration, Go Live, Complete
  in the stored document, whatever was there; declined or rejected by the backend, it
  leaves the stored document as it was.
\<close>

theorem reset_persists_defaults:
  "defaultStages = DEFAULT_STAGES \<and>
   settingsDoc (snd (reset_stages_click True None w)) =
     Some (JArray [''Intake'', ''Testing'', ''Integration'', ''Go Live'', ''Complete'']) \<and>
   (\<not> confirmed \<or> rejection \<noteq> None \<longrightarrow>
      settingsDoc (snd (reset_stages_click confirmed rejection w)) = settingsDoc w)"
proof (intro conjI impI)
  show "defaultStages = DEFAULT_STAGES" by (simp add: defaultStages_def DEFAULT_STAGES_def)
  show "settingsDoc (snd (reset_stages_click True None w)) =
     Some (JArray [''Intake'', ''Testing'', ''Integration'', ''Go Live'', ''Complete''])"
    by (simp add: reset_effect clearStagesCache_def defaultStages_def)
  assume "\<not> confirmed \<or> rejection \<noteq> None"
  then show "settingsDoc (snd (reset_stages_click confirmed rejection w)) = settingsDoc w"
    by (cases rejection) (auto simp: reset_stages_click_def saveOnboardingStages_def save_sends_def save_settles_def defaultStages_def)
qed

theorem reset_persists_defaults_witness:
  "settingsDoc (snd (reset_stages_click True (Some ''unavailable'') (initial (Some (JArray [''A'']))))) =
     settingsDoc (initial (Some (JArray [''A''])))"
proof -
  have h: "\<not> True \<or> Some ''unavailable'' \<noteq> None" by simp
  show ?thesis
    by (rule mp [OF reset_persists_defaults [where confirmed = True and rejection = "Some ''unavailable''"
          and w = "initial (Some (JArray [''A'']))", THEN conjunct2, THEN conjunct2] h])
qed

section \<open>Reordering in the stage editor\<close>

lemma move_up_result:
  "0 < i \<Longrightarrow> i < length xs \<Longrightarrow>
     move_up_click i xs = Some (xs[i := xs ! (i - 1), i - 1 := xs ! i])"
  by (simp add: move_up_click_def)

lemma move_down_result:
  "i + 1 < length xs \<Longrightarrow>
     move_down_click i xs = Some (xs[i := xs ! (i + 1), i + 1 := xs ! i])"
  by (simp add: move_down_click_def)

text \<open>
  C5. For \<open>0 < i < length\<close>, Move up on row \<open>i\<close> exchanges the names at \<open>i - 1\<close> and \<open>i\<close>
  and leaves every other position as it was; for \<open>i + 1 < length\<close>, Move down on row \<open>i\<close>
  exchanges the names at \<open>i\<close> and \<open>i + 1\<close> likewise. Both keep the length of the list and
  its multiset of names.
\<close>

theorem reorder_swaps_neighbours:
  "(0 < i \<and> i < length xs \<longrightarrow>
      (case move_up_click i xs of
         None \<Rightarrow> False
       | Some ys \<Rightarrow>
           ys ! (i - 1) = xs ! i \<and> ys ! i = xs ! (i - 1) \<and>
           (\<forall>j. j < length xs \<and> j \<noteq> i \<and> j \<noteq> i - 1 \<longrightarrow> ys ! j = xs ! j) \<and>
           length ys = length xs \<and> mset ys = mset xs)) \<and>
   (i + 1 < length xs \<longrightarrow>
      (case move_down_click i xs of
         None \<Rightarrow> False
       | Some ys \<Rightarrow>
           ys ! i = xs ! (i + 1) \<and> ys ! (i + 1) = xs ! i \<and>
           (\<forall>j. j < length xs \<and> j \<noteq> i \<and> j \<noteq> i + 1 \<longrightarrow> ys ! j = xs ! j) \<and>
           length ys = length xs \<and> mset ys = mset xs))"
proof (intro conjI impI)
  assume a: "0 < i \<and> i < length xs"
  define ys where "ys = xs[i := xs ! (i - 1), i - 1 := xs ! i]"
  from a have r: "move_up_click i xs = Some ys"
    unfolding ys_def by (intro move_up_result) auto
  from a have m: "mset ys = mset xs"
    unfolding ys_def by (intro mset_swap) auto
  from a have b: "i - 1 < length xs" "i - 1 \<noteq> i" "i < length xs" by arith+
  have p: "ys ! (i - 1) = xs ! i" "ys ! i = xs ! (i - 1)" "length ys = length xs"
    unfolding ys_def using b by (simp_all add: nth_list_update)
  have o: "\<forall>j. j < length xs \<and> j \<noteq> i \<and> j \<noteq> i - 1 \<longrightarrow> ys ! j = xs ! j"
    unfolding ys_def by (simp add: nth_list_update)
  show "case move_up_click i xs of
         None \<Rightarrow> False
       | Some ys \<Rightarrow>
           ys ! (i - 1) = xs ! i \<and> ys ! i = xs ! (i - 1) \<and>
           (\<forall>j. j < length xs \<and> j \<noteq> i \<and> j \<noteq> i - 1 \<longrightarrow> ys ! j = xs ! j) \<and>
           length ys = length xs \<and> mset ys = mset xs"
    unfolding r option.case using p o m by (intro conjI)
next
  assume a: "i + 1 < length xs"
  define ys where "ys = xs[i := xs ! (i + 1), i + 1 := xs ! i]"
  from a have r: "move_down_click i xs = Some ys"
    unfolding ys_def by (rule move_down_result)
  from a have m: "mset ys = mset xs"
    unfolding ys_def by (intro mset_swap) auto
  from a have b: "i < length xs" "i + 1 \<noteq> i" "i + 1 < length xs" by arith+
  have p: "ys ! i = xs ! (i + 1)" "ys ! (i + 1) = xs ! i" "length ys = length xs"
    unfolding ys_def using b by (simp_all add: nth_list_update)
  have o: "\<forall>j. j < length xs \<and> j \<noteq> i \<and> j \<noteq> i + 1 \<longrightarrow> ys ! j = xs ! j"
    unfolding ys_def by (simp add: nth_list_update)
  show "case move_down_click i xs of
         None \<Rightarrow> False
       | Some ys \<Rightarrow>
           ys ! i = xs ! (i + 1) \<and> ys ! (i + 1) = xs ! i \<and>
           (\<forall>j. j < length xs \<and> j \<noteq> i \<and> j \<noteq> i + 1 \<longrightarrow> ys ! j = xs ! j) \<and>
           length ys = length xs \<and> mset ys = mset xs"
    unfolding r option.case using p o m by (intro conjI)
qed

theorem reorder_swaps_neighbours_witness:
  "(case move_up_click 1 [''Intake'', ''Testing'', ''Go Live''] of
      None \<Rightarrow> False
    | Some ys \<Rightarrow>
        ys ! (1 - 1) = [''Intake'', ''Testing'', ''Go Live''] ! 1 \<and>
        ys ! 1 = [''Intake'', ''Testing'', ''Go Live''] ! (1 - 1) \<and>
        (\<forall>j. j < length [''Intake'', ''Testing'', ''Go Live''] \<and> j \<noteq> 1 \<and> j \<noteq> 1 - 1 \<longrightarrow>
             ys ! j = [''Intake'', ''Testing'', ''Go Live''] ! j) \<and>
        length ys = length [''Intake'', ''Testing'', ''Go Live''] \<and>
        mset ys = mset [''Intake'', ''Testing'', ''Go Live'']) \<and>
   (case move_down_click 1 [''Intake'', ''Testing'', ''Go Live''] of
      None \<Rightarrow> False
    | Some ys \<Rightarrow>
        ys ! 1 = [''Intake'', ''Testing'', ''Go Live''] ! (1 + 1) \<and>
        ys ! (1 + 1) = [''Intake'', ''Testing'', ''Go Live''] ! 1 \<and>
        (\<forall>j. j < length [''Intake'', ''Testing'', ''Go Live''] \<and> j \<noteq> 1 \<and> j \<noteq> 1 + 1 \<longrightarrow>
             ys ! j = [''Intake'', ''Testing'', ''Go Live''] ! j) \<and>
        length ys = length [''Intake'', ''Testing'', ''Go Live''] \<and>
        mset ys = mset [''Intake'', ''Testing'', ''Go Live'']) \<and>
   move_up_click 1 [''Intake'', ''Testing'', ''Go Live''] = Some [''Testing'', ''Intake'', ''Go Live''] \<and>
   move_down_click 1 [''Intake'', ''Testing'', ''Go Live''] = Some [''Intake'', ''Go Live'', ''Testing'']"
proof -
  let ?xs = "[''Intake'', ''Testing'', ''Go Live'']"
  note t = reorder_swaps_neighbours [where i = 1 and xs = ?xs]
  have h1: "0 < (1::nat) \<and> 1 < length ?xs" by simp
  have h2: "(1::nat) + 1 < length ?xs" by simp
  have 3: "move_up_click 1 ?xs = Some [''Testing'', ''Intake'', ''Go Live'']"
    by (simp add: move_up_click_def)
  have 4: "move_down_click 1 ?xs = Some [''Intake'', ''Go Live'', ''Testing'']"
    by (simp add: move_down_click_def)
  show ?thesis
    by (rule conjI [OF mp [OF t [THEN conjunct1] h1] conjI [OF mp [OF t [THEN conjunct2] h2] conjI [OF 3 4]]])
qed

section \<open>The stage editor never empties its list\<close>

lemma delete_click_result:
  "index < length stages \<Longrightarrow>
     delete_click index confirmed stages =
       Some (if 1 < length stages \<and> confirmed
             then take index stages @ drop (Suc index) stages else stages)"
  by (simp add: delete_click_def)

lemma length_without_row:
  "index < length stages \<Longrightarrow> Suc (length (take index stages @ drop (Suc index) stages)) = length stages"
  by simp

lemma apply_edit_length:
  assumes "apply_edit e stages = Some ys"
  shows "(\<forall>i c. e \<noteq> Delete i c) \<longrightarrow> length stages \<le> length ys"
    and "stages \<noteq> [] \<longrightarrow> ys \<noteq> []"
proof -
  show "(\<forall>i c. e \<noteq> Delete i c) \<longrightarrow> length stages \<le> length ys"
    using assms
    by (cases e)
      (auto simp: move_up_click_def move_down_click_def input_blur_def add_stage_click_def Let_def
        split: if_splits option.splits)
  show "stages \<noteq> [] \<longrightarrow> ys \<noteq> []"
  proof (cases e)
    case (Delete index confirmed)
    show ?thesis
    proof (cases "index < length stages")
      case True
      with assms Delete have
        "ys = (if 1 < length stages \<and> confirmed then take index stages @ drop (Suc index) stages else stages)"
        by (simp add: delete_click_result)
      moreover have "1 < length stages \<Longrightarrow> take index stages @ drop (Suc index) stages \<noteq> []"
        using length_without_row [OF True] by (metis Suc_lessD length_0_conv less_not_refl One_nat_def)
      ultimately show ?thesis by auto
    next
      case False
      with assms Delete show ?thesis by (simp add: delete_click_def)
    qed
  qed (use assms in \<open>auto simp: move_up_click_def move_down_click_def input_blur_def
        add_stage_click_def Let_def split: if_splits option.splits\<close>)
qed

lemma apply_edits_nonempty:
  "stages \<noteq> [] \<Longrightarrow> apply_edits es stages = Some stages' \<Longrightarrow> stages' \<noteq> []"
proof (induction es arbitrary: stages)
  case Nil
  then show ?case by simp
next
  case (Cons e es)
  from Cons.prems(2) obtain ys where e: "apply_edit e stages = Some ys"
    and r: "apply_edits es ys = Some stages'"
    by (auto split: option.splits)
  from apply_edit_length(2) [OF e] Cons.prems(1) have "ys \<noteq> []" by simp
  then show ?case using r by (rule Cons.IH)
qed

text \<open>
  C8. A list that is non-empty stays non-empty through every sequence of Move up, Move
  down, Delete, rename and Add. Delete on an existing row removes exactly that row, and
  only when the list has more than one row and the user confirms; with one row the
  button is drawn disabled and the handler leaves the list alone. No other edit
  shortens the list.
\<close>

theorem editor_keeps_a_stage:
  "(stages \<noteq> [] \<and> apply_edits es stages = Some stages' \<longrightarrow> stages' \<noteq> []) \<and>
   (index < length stages \<longrightarrow>
      (case delete_click index confirmed stages of
         None \<Rightarrow> False
       | Some ys \<Rightarrow>
           if 1 < length stages \<and> confirmed
           then ys = take index stages @ drop (Suc index) stages \<and> Suc (length ys) = length stages
           else ys = stages)) \<and>
   (index < length stages \<and> length stages \<le> 1 \<longrightarrow>
      delete_disabled index stages \<and> delete_click index confirmed stages = Some stages) \<and>
   ((\<forall>i c. e \<noteq> Delete i c) \<and> apply_edit e stages = Some ys \<longrightarrow> length stages \<le> length ys)"
proof (intro conjI impI)
  assume "stages \<noteq> [] \<and> apply_edits es stages = Some stages'"
  then show "stages' \<noteq> []" using apply_edits_nonempty by blast
next
  assume a: "index < length stages"
  show "case delete_click index confirmed stages of
         None \<Rightarrow> False
       | Some ys \<Rightarrow>
           if 1 < length stages \<and> confirmed
           then ys = take index stages @ drop (Suc index) stages \<and> Suc (length ys) = length stages
           else ys = stages"
    unfolding delete_click_result [OF a] option.case
    using a by auto
next
  assume "index < length stages \<and> length stages \<le> 1"
  then show "delete_disabled index stages" by (simp add: delete_disabled_def)
next
  assume "index < length stages \<and> length stages \<le> 1"
  then show "delete_click index confirmed stages = Some stages"
    by (simp add: delete_click_def)
next
  assume "(\<forall>i c. e \<noteq> Delete i c) \<and> apply_edit e stages = Some ys"
  then show "length stages \<le> length ys" using apply_edit_length(1) by blast
qed

theorem editor_keeps_a_stage_witness:
  "apply_edits [Delete 0 True, AddStage (Some '' Live ''), Delete 0 True, Blur 0 ''Done'', MoveUp 0]
     [''Intake''] = Some [''Done''] \<and>
   [''Done''] \<noteq> ([] :: string list) \<and>
   (case delete_click 0 True [''Intake'', ''Live''] of
      None \<Rightarrow> False
    | Some ys \<Rightarrow>
        if 1 < length [''Intake'', ''Live''] \<and> True
        then ys = take 0 [''Intake'', ''Live''] @ drop (Suc 0) [''Intake'', ''Live''] \<and>
             Suc (length ys) = length [''Intake'', ''Live'']
        else ys = [''Intake'', ''Live''])"
proof -
  let ?es = "[Delete 0 True, AddStage (Some '' Live ''), Delete 0 True, Blur 0 ''Done'', MoveUp 0]"
  have t: "trim '' Live '' = ''Live''" "trim ''Done'' = ''Done''"
    by (simp_all add: trim_def is_space_def)
  have r: "apply_edits ?es [''Intake''] = Some [''Done'']"
    by (simp add: delete_click_def add_stage_click_def input_blur_def move_up_click_def t)
  have h1: "[''Intake''] \<noteq> [] \<and> apply_edits ?es [''Intake''] = Some [''Done'']"
    using r by simp
  have h2: "0 < length [''Intake'', ''Live'']" by simp
  note a = editor_keeps_a_stage [where stages = "[''Intake'']" and es = ?es and stages' = "[''Done'']"]
  note b = editor_keeps_a_stage [where stages = "[''Intake'', ''Live'']" and index = 0 and confirmed = True]
  show ?thesis
    by (rule conjI [OF r conjI [OF mp [OF a [THEN conjunct1] h1] mp [OF b [THEN conjunct2, THEN conjunct1] h2]]])
qed

section \<open>Save Changes\<close>

lemma dropWhile_fixed: "xs = [] \<or> \<not> P (hd xs) \<Longrightarrow> dropWhile P xs = xs"
  by (cases xs) auto

lemma trim_idem: "trim (trim s) = trim s"
proof -
  define t where "t = dropWhile is_space s"
  define u where "u = dropWhile is_space (rev t)"
  have t: "t = [] \<or> \<not> is_space (hd t)"
    unfolding t_def by (metis hd_dropWhile)
  have u: "u = [] \<or> \<not> is_space (hd u)"
    unfolding u_def by (metis hd_dropWhile)
  have "u = [] \<or> last u = hd t"
  proof (cases "u = []")
    case False
    then have "rev t \<noteq> []" unfolding u_def by auto
    obtain pre where "rev t = pre @ u"
      unfolding u_def by (metis takeWhile_dropWhile_id)
    with False have "last u = last (rev t)" by simp
    also have "\<dots> = hd t" using \<open>rev t \<noteq> []\<close> by (simp add: last_rev)
    finally show ?thesis by simp
  qed simp
  moreover have "u \<noteq> [] \<Longrightarrow> t \<noteq> []" unfolding u_def by auto
  ultimately have r: "rev u = [] \<or> \<not> is_space (hd (rev u))"
    using t by (cases "u = []") (auto simp: hd_rev)
  have "trim s = rev u" by (simp add: trim_def t_def u_def)
  moreover have "trim (rev u) = rev u"
    unfolding trim_def
    using dropWhile_fixed [of "rev u" is_space, OF r] dropWhile_fixed [of u is_space, OF u] by simp
  ultimately show ?thesis by simp
qed

lemma unique_loop_keeps_first:
  "unique_loop ss (set pre) (rev (remdups (rev pre))) =
     rev (remdups (rev (pre @ filter (\<lambda>t. t \<noteq> []) (map trim ss))))"
proof (induction ss arbitrary: pre)
  case Nil
  then show ?case by simp
next
  case (Cons s ss)
  let ?t = "trim s"
  show ?case
  proof (cases "?t = []")
    case True
    then show ?thesis using Cons.IH [of pre] by simp
  next
    case False
    show ?thesis
    proof (cases "?t \<in> set pre")
      case True
      then have "set pre = set (pre @ [?t])" "rev (remdups (rev pre)) = rev (remdups (rev (pre @ [?t])))"
        by auto
      then have "unique_loop ss (set pre) (rev (remdups (rev pre))) =
          rev (remdups (rev ((pre @ [?t]) @ filter (\<lambda>t. t \<noteq> []) (map trim ss))))"
        using Cons.IH [of "pre @ [?t]"] by simp
      with True False show ?thesis by simp
    next
      case nin: False
      then have "rev (remdups (rev pre)) @ [?t] = rev (remdups (rev (pre @ [?t])))"
        by simp
      then have "unique_loop ss (insert ?t (set pre)) (rev (remdups (rev pre)) @ [?t]) =
          rev (remdups (rev ((pre @ [?t]) @ filter (\<lambda>t. t \<noteq> []) (map trim ss))))"
        using Cons.IH [of "pre @ [?t]"] by simp
      with nin False show ?thesis by simp
    qed
  qed
qed

lemma unique_loop_eq:
  "unique_loop ss {} [] = rev (remdups (rev (filter (\<lambda>t. t \<noteq> []) (map trim ss))))"
  using unique_loop_keeps_first [of ss "[]"] by simp

lemma length_keep_first: "(length (rev (remdups (rev xs))) = length xs) = distinct xs"
  by (metis distinct_remdups distinct_rev length_remdups_eq length_rev remdups_id_iff_distinct)


lemma keep_first_distinct: "distinct xs \<Longrightarrow> rev (remdups (rev xs)) = xs"
  by (simp add: distinct_remdups_id)

lemma all_named:
  "filter (\<lambda>s. s = [] \<or> trim s = []) stages = [] \<Longrightarrow>
     filter (\<lambda>t. t \<noteq> []) (map trim stages) = map trim stages"
  by (induction stages) (auto split: if_splits)

lemma save_array:
  "saveOnboardingStages rejection (JArray xs) w =
     (if xs = [] then (Inl NotNonEmptyArray, w)
      else case rejection of
             None \<Rightarrow>
               (Inr (), w\<lparr>issued := issued w @ [SetDoc xs False], settingsDoc := Some (JArray xs),
                          cachedStages := Some xs\<rparr>)
           | Some error \<Rightarrow>
               (Inl (WriteFailed error),
                w\<lparr>issued := issued w @ [SetDoc xs False],
                  console := console w @ [(''Error saving onboarding stages:'', error)]\<rparr>))"
  by (simp add: saveOnboardingStages_def save_sends_def save_settles_def split: option.splits)

lemma save_array_doc:
  "settingsDoc (snd (saveOnboardingStages rejection (JArray xs) w)) =
     (if xs \<noteq> [] \<and> rejection = None then Some (JArray xs) else settingsDoc w)"
  by (cases rejection) (simp_all add: save_array)

lemma save_array_ok:
  "(\<exists>u. fst (saveOnboardingStages rejection (JArray xs) w) = Inr u) = (xs \<noteq> [] \<and> rejection = None)"
  by (cases rejection) (simp_all add: save_array)

lemma save_click_unnamed:
  "filter (\<lambda>s. s = [] \<or> trim s = []) local \<noteq> [] \<Longrightarrow>
     save_stages_click confirmed rejection local w =
       (Some (ErrorNotice ''Please ensure all stages have names.''), local, w)"
  by (simp add: save_stages_click_def)

lemma save_click_declined:
  "filter (\<lambda>s. s = [] \<or> trim s = []) local = [] \<Longrightarrow>
   length (unique_loop local {} []) \<noteq> length local \<Longrightarrow> \<not> confirmed \<Longrightarrow>
     save_stages_click confirmed rejection local w = (None, local, w)"
  by (simp add: save_stages_click_def)

lemma save_click_saves:
  assumes "filter (\<lambda>s. s = [] \<or> trim s = []) local = []"
    and "length (unique_loop local {} []) = length local \<or> confirmed"
    and "saved = (if length (unique_loop local {} []) \<noteq> length local
                  then unique_loop local {} [] else local)"
    and "r = saveOnboardingStages rejection (JArray saved) w"
  shows "save_stages_click confirmed rejection local w =
     (case fst r of
        Inr u \<Rightarrow> (Some (SuccessNotice ''Stages saved successfully!''), saved, clearStagesCache (snd r))
      | Inl error \<Rightarrow>
          (Some (ErrorNotice ''Error saving stages. Please try again.''), saved,
           (snd r)\<lparr>console := console (snd r) @ [(''Error saving stages:'', error_text error)]\<rparr>))"
  using assms by (auto simp: save_stages_click_def Let_def split: prod.splits sum.splits)

lemma saved_list:
  assumes v: "filter (\<lambda>s. s = [] \<or> trim s = []) local = []"
    and s: "saved = (if length (unique_loop local {} []) \<noteq> length local
                      then unique_loop local {} [] else local)"
  shows "distinct saved" and "distinct (map trim saved)"
    and "map trim saved = rev (remdups (rev (map trim local)))"
proof -
  let ?F = "rev (remdups (rev (map trim local)))"
  have u: "unique_loop local {} [] = ?F"
    by (simp add: unique_loop_eq all_named [OF v])
  have m: "map trim ?F = ?F"
    by (rule map_idI) (auto simp: trim_idem)
  show 3: "map trim saved = ?F"
  proof (cases "length ?F = length local")
    case True
    then have "distinct (map trim local)"
      using length_keep_first [of "map trim local"] by simp
    then show ?thesis using True by (simp add: s u keep_first_distinct)
  next
    case False
    then show ?thesis by (simp add: s u m)
  qed
  have "distinct ?F" by simp
  with 3 show "distinct (map trim saved)" by simp
  then show "distinct saved" by (simp add: distinct_map)
qed

lemma save_click_success:
  assumes a: "save_stages_click confirmed rejection local w =
             (Some (SuccessNotice ''Stages saved successfully!''), saved, w')"
  shows "settingsDoc w' = Some (JArray saved)" "saved \<noteq> []" "distinct saved"
    "distinct (map trim saved)" "map trim saved = rev (remdups (rev (map trim local)))"
proof -
  define S where "S = (if length (unique_loop local {} []) \<noteq> length local
                       then unique_loop local {} [] else local)"
  define r where "r = saveOnboardingStages rejection (JArray S) w"
  have v: "filter (\<lambda>s. s = [] \<or> trim s = []) local = []"
  proof (rule ccontr)
    assume "filter (\<lambda>s. s = [] \<or> trim s = []) local \<noteq> []"
    from save_click_unnamed [OF this, of confirmed rejection w] a show False by simp
  qed
  have c: "length (unique_loop local {} []) = length local \<or> confirmed"
  proof (rule ccontr)
    assume "\<not> (length (unique_loop local {} []) = length local \<or> confirmed)"
    then have "length (unique_loop local {} []) \<noteq> length local" "\<not> confirmed" by simp_all
    from save_click_declined [OF v this, of rejection w] a show False by simp
  qed
  note e = save_click_saves [OF v c S_def r_def]
  from a e obtain u where ok: "fst r = Inr u" by (cases "fst r") auto
  with a e have s: "saved = S" and w': "w' = clearStagesCache (snd r)" by auto
  from ok have ne: "S \<noteq> [] \<and> rejection = None"
    unfolding r_def using save_array_ok [of rejection S w] by blast
  show "saved \<noteq> []" using ne s by simp
  show "settingsDoc w' = Some (JArray saved)"
    unfolding w' s r_def using ne save_array_doc [of rejection S w] by (simp add: clearStagesCache_def)
  show "distinct saved" "distinct (map trim saved)" "map trim saved = rev (remdups (rev (map trim local)))"
    unfolding s using saved_list [OF v S_def] by simp_all
qed

lemma save_click_otherwise:
  assumes a: "fst (save_stages_click confirmed rejection local w) \<noteq>
             Some (SuccessNotice ''Stages saved successfully!'')"
  shows "settingsDoc (snd (snd (save_stages_click confirmed rejection local w))) = settingsDoc w"
proof -
  define S where "S = (if length (unique_loop local {} []) \<noteq> length local
                       then unique_loop local {} [] else local)"
  define r where "r = saveOnboardingStages rejection (JArray S) w"
  consider (unnamed) "filter (\<lambda>s. s = [] \<or> trim s = []) local \<noteq> []"
    | (declined) "filter (\<lambda>s. s = [] \<or> trim s = []) local = []"
        "length (unique_loop local {} []) \<noteq> length local" "\<not> confirmed"
    | (saves) "filter (\<lambda>s. s = [] \<or> trim s = []) local = []"
        "length (unique_loop local {} []) = length local \<or> confirmed"
    by blast
  then show ?thesis
  proof cases
    case unnamed
    then show ?thesis by (simp add: save_click_unnamed)
  next
    case declined
    then show ?thesis by (simp add: save_click_declined)
  next
    case saves
    note e = save_click_saves [OF saves S_def r_def]
    show ?thesis
    proof (cases "fst r")
      case (Inl error)
      then have "\<not> (S \<noteq> [] \<and> rejection = None)"
        unfolding r_def using save_array_ok [of rejection S w] by auto
      then have "settingsDoc (snd r) = settingsDoc w"
        unfolding r_def using save_array_doc [of rejection S w] by auto
      then show ?thesis unfolding e Inl by simp
    next
      case (Inr u)
      with a show ?thesis unfolding e by simp
    qed
  qed
qed


text \<open>
  C2. \<open>saveOnboardingStages\<close> throws, and leaves everything as it was, for every
  argument that is not a non-empty array. When Save Changes reports success, the list
  it has stored is non-empty and has no name twice, not even up to surrounding white
  space; its trimmed names are the trimmed names of the editor's list with the first
  occurrence of each kept, in their order. When it does not report success, the stored
  document is as before.
\<close>

theorem saved_stages_nonempty_distinct:
  "((\<forall>xs. stages \<noteq> JArray xs \<or> xs = []) \<longrightarrow>
      saveOnboardingStages rejection stages w = (Inl NotNonEmptyArray, w)) \<and>
   (save_stages_click confirmed rejection local w =
      (Some (SuccessNotice ''Stages saved successfully!''), saved, w') \<longrightarrow>
      settingsDoc w' = Some (JArray saved) \<and> saved \<noteq> [] \<and> distinct saved \<and>
      distinct (map trim saved) \<and>
      map trim saved = rev (remdups (rev (map trim local)))) \<and>
   (fst (save_stages_click confirmed rejection local w) \<noteq>
      Some (SuccessNotice ''Stages saved successfully!'') \<longrightarrow>
      settingsDoc (snd (snd (save_stages_click confirmed rejection local w))) = settingsDoc w)"
proof (intro conjI impI)
  assume "\<forall>xs. stages \<noteq> JArray xs \<or> xs = []"
  then show "saveOnboardingStages rejection stages w = (Inl NotNonEmptyArray, w)"
    by (rule save_rejects_non_arrays)
next
  assume a: "save_stages_click confirmed rejection local w =
      (Some (SuccessNotice ''Stages saved successfully!''), saved, w')"
  show "settingsDoc w' = Some (JArray saved)" by (rule save_click_success(1) [OF a])
  show "saved \<noteq> []" by (rule save_click_success(2) [OF a])
  show "distinct saved" by (rule save_click_success(3) [OF a])
  show "distinct (map trim saved)" by (rule save_click_success(4) [OF a])
  show "map trim saved = rev (remdups (rev (map trim local)))" by (rule save_click_success(5) [OF a])
next
  assume "fst (save_stages_click confirmed rejection local w) \<noteq>
      Some (SuccessNotice ''Stages saved successfully!'')"
  then show "settingsDoc (snd (snd (save_stages_click confirmed rejection local w))) = settingsDoc w"
    by (rule save_click_otherwise)
qed

theorem saved_stages_nonempty_distinct_witness:
  "saveOnboardingStages None JNull (initial None) = (Inl NotNonEmptyArray, initial None) \<and>
   (settingsDoc (snd (snd (save_stages_click True None [''Intake'', ''Live '', ''Intake '', ''Live'']
        (initial None)))) = Some (JArray [''Intake'', ''Live'']) \<and>
    [''Intake'', ''Live''] \<noteq> [] \<and> distinct [''Intake'', ''Live''] \<and>
    distinct (map trim [''Intake'', ''Live'']) \<and>
    map trim [''Intake'', ''Live''] =
      rev (remdups (rev (map trim [''Intake'', ''Live '', ''Intake '', ''Live'']))))"
proof -
  let ?local = "[''Intake'', ''Live '', ''Intake '', ''Live'']"
  let ?out = "save_stages_click True None ?local (initial None)"
  have t: "trim ''Intake'' = ''Intake''" "trim ''Live '' = ''Live''" "trim ''Intake '' = ''Intake''"
    "trim ''Live'' = ''Live''"
    by (simp_all add: trim_def is_space_def)
  have u: "unique_loop ?local {} [] = [''Intake'', ''Live'']"
    by (simp add: t)
  have v: "filter (\<lambda>s. s = [] \<or> trim s = []) ?local = []"
    by (simp add: t)
  have c: "length (unique_loop ?local {} []) = length ?local \<or> True" by simp
  have s: "[''Intake'', ''Live''] =
      (if length (unique_loop ?local {} []) \<noteq> length ?local then unique_loop ?local {} [] else ?local)"
    unfolding u by simp
  have "?out = (Some (SuccessNotice ''Stages saved successfully!''), [''Intake'', ''Live''],
      clearStagesCache (snd (saveOnboardingStages None (JArray [''Intake'', ''Live'']) (initial None))))"
    unfolding save_click_saves [OF v c s refl] by (simp add: save_array)
  then have h2: "?out = (Some (SuccessNotice ''Stages saved successfully!''), [''Intake'', ''Live''],
      snd (snd ?out))"
    by simp
  have h1: "\<forall>xs. JNull \<noteq> JArray xs \<or> xs = []" by simp
  note a = saved_stages_nonempty_distinct [where stages = JNull and rejection = None
      and w = "initial None" and confirmed = True and local = ?local
      and saved = "[''Intake'', ''Live'']" and w' = "snd (snd ?out)"]
  show ?thesis
    by (rule conjI [OF mp [OF a [THEN conjunct1] h1] mp [OF a [THEN conjunct2, THEN conjunct1] h2]])
qed

section \<open>One load at a time\<close>

lemma coalesced_iff:
  "coalesced w = (in_flight w = [] \<or> (\<exists>p ph. in_flight w = [(p, ph)] \<and> stagesPromise w = Some p))"
  by (auto simp: coalesced_def split: list.splits)

lemma coalesced_initial: "coalesced (initial doc)"
  by (simp add: coalesced_def initial_def)

lemma load_cached:
  "cachedStages w = Some stages \<Longrightarrow> loadOnboardingStages w = (Stages stages, w)"
  by (simp add: loadOnboardingStages_def)

lemma load_in_progress:
  "cachedStages w = None \<Longrightarrow> stagesPromise w = Some p \<Longrightarrow> loadOnboardingStages w = (InFlight p, w)"
  by (simp add: loadOnboardingStages_def)

lemma load_starts:
  "cachedStages w = None \<Longrightarrow> stagesPromise w = None \<Longrightarrow>
     fst (loadOnboardingStages w) = InFlight (fresh w) \<and>
     issued (snd (loadOnboardingStages w)) = issued w @ [GetDoc] \<and>
     in_flight (snd (loadOnboardingStages w)) = in_flight w @ [(fresh w, AwaitGetDoc)] \<and>
     stagesPromise (snd (loadOnboardingStages w)) = Some (fresh w)"
  by (simp add: loadOnboardingStages_def)

lemma coalesced_load: "coalesced w \<Longrightarrow> coalesced (snd (loadOnboardingStages w))"
proof (cases "cachedStages w")
  case None
  assume c: "coalesced w"
  show ?thesis
  proof (cases "stagesPromise w")
    case n: None
    with c have "in_flight w = []" by (auto simp: coalesced_iff)
    with None n show ?thesis by (simp add: load_starts coalesced_iff)
  next
    case (Some p)
    with None c show ?thesis by (simp add: load_in_progress)
  qed
next
  case (Some stages)
  assume "coalesced w"
  with Some show ?thesis by (simp add: load_cached)
qed

lemma coalesced_finish: "coalesced w \<Longrightarrow> p \<in> fst ` set (in_flight w) \<Longrightarrow> coalesced (finish p stages w)"
  by (auto simp: coalesced_iff finish_def)

lemma coalesced_finish': "coalesced w \<Longrightarrow> p \<in> fst ` set (in_flight w) \<Longrightarrow>
    coalesced (finish p stages (w\<lparr>settingsDoc := d\<rparr>))"
  by (auto simp: coalesced_iff finish_def)

lemma coalesced_finish'': "coalesced w \<Longrightarrow> p \<in> fst ` set (in_flight w) \<Longrightarrow>
    coalesced (finish p stages (w\<lparr>console := d\<rparr>))"
  by (auto simp: coalesced_iff finish_def)

lemma coalesced_writes_defaults:
  "coalesced w \<Longrightarrow>
   coalesced (w\<lparr>in_flight := map (\<lambda>(q, ph). if q = p then (q, AwaitSetDoc) else (q, ph)) (in_flight w),
               issued := issued w @ [c]\<rparr>)"
  by (auto simp: coalesced_iff)

lemma coalesced_getDoc: "coalesced w \<Longrightarrow> coalesced (getDoc_returns p w)"
proof -
  assume c: "coalesced w"
  show ?thesis
  proof (cases "(p, AwaitGetDoc) \<in> set (in_flight w)")
    case True
    then have m: "p \<in> fst ` set (in_flight w)" by force
    show ?thesis
      unfolding getDoc_returns_def using True
      by (simp add: coalesced_finish [OF c m] coalesced_writes_defaults [OF c]
          split: option.splits js_value.splits)
  next
    case False
    with c show ?thesis by (simp add: getDoc_returns_def)
  qed
qed

lemma coalesced_setDoc: "coalesced w \<Longrightarrow> coalesced (setDoc_returns p w)"
proof -
  assume c: "coalesced w"
  show ?thesis
  proof (cases "(p, AwaitSetDoc) \<in> set (in_flight w)")
    case True
    then have m: "p \<in> fst ` set (in_flight w)" by force
    show ?thesis
      unfolding setDoc_returns_def using True by (simp add: coalesced_finish' [OF c m])
  next
    case False
    with c show ?thesis by (simp add: setDoc_returns_def)
  qed
qed

lemma coalesced_rejected: "coalesced w \<Longrightarrow> coalesced (load_rejected p error w)"
  by (simp add: load_rejected_def coalesced_finish'')

lemma coalesced_step: "coalesced w \<Longrightarrow> e \<noteq> Clear \<Longrightarrow> coalesced (step w e)"
  by (cases e) (simp_all add: coalesced_load coalesced_getDoc coalesced_setDoc coalesced_rejected)

lemma coalesced_run: "coalesced w \<Longrightarrow> Clear \<notin> set evs \<Longrightarrow> coalesced (run w evs)"
  unfolding run_def
  by (induction evs arbitrary: w) (auto simp: coalesced_step)

lemma coalesced_length: "coalesced w \<Longrightarrow> length (in_flight w) \<le> 1"
  by (auto simp: coalesced_iff)

text \<open>
  C3. A call of \<open>loadOnboardingStages\<close> with the cache set returns the cached list and
  changes nothing, so it sends no read; with the cache empty and a load in progress it
  returns the promise of that load and changes nothing; only with neither does it send a
  read. Through every sequence of calls and backend answers in which nobody clears the
  cache, at most one load is waiting for the backend at any time.
\<close>

theorem load_coalesces_requests:
  "(cachedStages w = Some stages \<longrightarrow> loadOnboardingStages w = (Stages stages, w)) \<and>
   (cachedStages w = None \<and> stagesPromise w = Some p \<longrightarrow>
      loadOnboardingStages w = (InFlight p, w)) \<and>
   (cachedStages w = None \<and> stagesPromise w = None \<longrightarrow>
      fst (loadOnboardingStages w) = InFlight (fresh w) \<and>
      issued (snd (loadOnboardingStages w)) = issued w @ [GetDoc]) \<and>
   (Clear \<notin> set evs \<longrightarrow> length (in_flight (run (initial doc) evs)) \<le> 1)"
proof (intro conjI impI)
  assume "cachedStages w = Some stages"
  then show "loadOnboardingStages w = (Stages stages, w)" by (rule load_cached)
next
  assume "cachedStages w = None \<and> stagesPromise w = Some p"
  then show "loadOnboardingStages w = (InFlight p, w)" by (simp add: load_in_progress)
next
  assume a: "cachedStages w = None \<and> stagesPromise w = None"
  then show "fst (loadOnboardingStages w) = InFlight (fresh w)" by (simp add: load_starts)
  from a show "issued (snd (loadOnboardingStages w)) = issued w @ [GetDoc]" by (simp add: load_starts)
next
  assume "Clear \<notin> set evs"
  then have "coalesced (run (initial doc) evs)"
    using coalesced_initial coalesced_run by blast
  then show "length (in_flight (run (initial doc) evs)) \<le> 1" by (rule coalesced_length)
qed

theorem load_coalesces_requests_witness:
  "loadOnboardingStages (run (initial None) [Load, Rejected 0 ''unavailable'']) =
     (Stages DEFAULT_STAGES, run (initial None) [Load, Rejected 0 ''unavailable'']) \<and>
   loadOnboardingStages (run (initial None) [Load]) = (InFlight 0, run (initial None) [Load]) \<and>
   length (in_flight (run (initial (Some (JArray [''Intake''])))
     [Load, Load, Returned 0, Load, Returned 0])) \<le> 1"
proof -
  let ?w1 = "run (initial None) [Load, Rejected 0 ''unavailable'']"
  let ?w2 = "run (initial None) [Load]"
  let ?evs = "[Load, Load, Returned 0, Load, Returned 0]"
  have h1: "cachedStages ?w1 = Some DEFAULT_STAGES"
    by (simp add: run_def initial_def loadOnboardingStages_def load_rejected_def finish_def)
  have h2: "cachedStages ?w2 = None \<and> stagesPromise ?w2 = Some 0"
    by (simp add: run_def initial_def loadOnboardingStages_def)
  have h3: "Clear \<notin> set ?evs" by simp
  note a = load_coalesces_requests [where w = ?w1 and stages = DEFAULT_STAGES]
  note b = load_coalesces_requests [where w = ?w2 and p = 0]
  note c = load_coalesces_requests [where evs = ?evs and doc = "Some (JArray [''Intake''])"]
  show ?thesis
    by (rule conjI [OF mp [OF a [THEN conjunct1] h1]
          conjI [OF mp [OF b [THEN conjunct2, THEN conjunct1] h2]
            mp [OF c [THEN conjunct2, THEN conjunct2, THEN conjunct2] h3]]])
qed

text \<open>
  The proviso is needed: \<open>clearStagesCache\<close> also forgets the promise of a load in
  progress, and the next call then sends a second read beside the first.
\<close>

lemma clear_during_load_starts_second_read:
  "in_flight (run (initial None) [Load, Clear, Load]) = [(0, AwaitGetDoc), (1, AwaitGetDoc)] \<and>
   issued (run (initial None) [Load, Clear, Load]) = [GetDoc, GetDoc]"
  by (simp add: run_def initial_def loadOnboardingStages_def clearStagesCache_def)

section \<open>The loader never yields an empty list\<close>

lemma defaults_named: "DEFAULT_STAGES \<noteq> []"
  by (simp add: DEFAULT_STAGES_def)

lemma named_step:
  assumes "cachedStages w \<noteq> Some []" and "list_all (\<lambda>r. snd r \<noteq> []) (resolved w)"
  shows "cachedStages (step w e) \<noteq> Some [] \<and> list_all (\<lambda>r. snd r \<noteq> []) (resolved (step w e))"
proof (cases e)
  case Load
  with assms show ?thesis
    by (auto simp: loadOnboardingStages_def split: option.splits)
next
  case (Returned p)
  with assms show ?thesis
    by (auto simp: getDoc_returns_def setDoc_returns_def finish_def defaults_named
        split: option.splits js_value.splits)
next
  case (Rejected p error)
  with assms show ?thesis
    by (simp add: load_rejected_def finish_def defaults_named)
next
  case Clear
  with assms show ?thesis by (simp add: clearStagesCache_def)
qed

lemma named_run:
  "cachedStages w \<noteq> Some [] \<Longrightarrow> list_all (\<lambda>r. snd r \<noteq> []) (resolved w) \<Longrightarrow>
     cachedStages (run w evs) \<noteq> Some [] \<and> list_all (\<lambda>r. snd r \<noteq> []) (resolved (run w evs))"
  unfolding run_def
proof (induction evs arbitrary: w)
  case Nil
  then show ?case by simp
next
  case (Cons e evs)
  from named_step [OF Cons.prems, of e] show ?case
    using Cons.IH [of "step w e"] by simp
qed

text \<open>
  Whatever the backend holds and however calls, answers and cache clears interleave, the
  cache never holds the empty list and no load resolves with it: the editor of the
  Settings page starts from a non-empty list.
\<close>

lemma loaded_stages_never_empty:
  "cachedStages (run (initial doc) evs) \<noteq> Some [] \<and>
   list_all (\<lambda>r. snd r \<noteq> []) (resolved (run (initial doc) evs)) \<and>
   fst (loadOnboardingStages (run (initial doc) evs)) \<noteq> Stages []"
proof -
  have a: "cachedStages (run (initial doc) evs) \<noteq> Some [] \<and>
      list_all (\<lambda>r. snd r \<noteq> []) (resolved (run (initial doc) evs))"
    by (rule named_run) (simp_all add: initial_def)
  then have "fst (loadOnboardingStages (run (initial doc) evs)) \<noteq> Stages []"
    by (auto simp: loadOnboardingStages_def split: option.splits)
  with a show ?thesis by simp
qed

section \<open>Failed backend calls\<close>




















lemma library_never_logs: "logged (renderPage getDocs userRole partnerId folderName onScreen) = []"
  by (simp add: renderPage_def split: option.splits sum.splits)







end
